theory Spec2Isabelle
  imports Main
begin

section \<open>JavaScript values and string primitives\<close>

text \<open>
  The services store loosely typed JavaScript values: a device state is an object whose
  properties hold numbers, booleans, strings, \<open>null\<close> or \<open>undefined\<close>. Every number
  the services compute is integral (a millisecond count, a counter, the result of
  \<open>parseInt\<close>), so a finite number is the integer it denotes; \<open>JInf True\<close> is
  \<open>-Infinity\<close>, \<open>JInf False\<close> is \<open>Infinity\<close>, and \<open>NaN\<close> is a value of its own. Negative
  zero is not told apart from zero (the services neither divide by it nor print its sign).

  A string is held as the list of the bytes of its UTF-8 encoding, which is how the serial
  transport delivers a line. Every delimiter, prefix and character class the services look
  for is ASCII, and an ASCII byte never occurs inside the encoding of another character, so
  prefix tests, searches, splitting and slicing after an ASCII prefix act on the bytes as
  they act on the characters.
\<close>

datatype jsval = JUndef | JNull | JBool bool | JNum int | JInf bool | JNaN | JStr string

text \<open>ToBoolean: what \<open>if (v)\<close>, \<open>!v\<close> and \<open>v || d\<close> test.\<close>

fun truthy :: "jsval \<Rightarrow> bool" where
  "truthy JUndef = False"
| "truthy JNull = False"
| "truthy (JBool b) = b"
| "truthy (JNum n) = (n \<noteq> 0)"
| "truthy (JInf neg) = True"
| "truthy JNaN = False"
| "truthy (JStr s) = (s \<noteq> [])"

text \<open>\<open>a || b\<close>\<close>

definition js_or :: "jsval \<Rightarrow> jsval \<Rightarrow> jsval" where
  "js_or a b = (if truthy a then a else b)"

text \<open>
  An object literal and a \<open>Map\<close> both keep their keys in insertion order, and assigning to
  an existing key keeps its position: an association list with update in place. (The
  language enumerates the integer-like keys of an object first; the services read
  properties by name only, so the position of a property is never observed.)
\<close>

type_synonym 'v jsmap = "(string \<times> 'v) list"

type_synonym jsobj = "jsval jsmap"

fun map_set :: "string \<Rightarrow> 'v \<Rightarrow> 'v jsmap \<Rightarrow> 'v jsmap" where
  "map_set k v [] = [(k, v)]"
| "map_set k v ((k', v') # r) = (if k = k' then (k, v) # r else (k', v') # map_set k v r)"

fun map_get :: "string \<Rightarrow> 'v jsmap \<Rightarrow> 'v option" where
  "map_get k [] = None"
| "map_get k ((k', v') # r) = (if k = k' then Some v' else map_get k r)"

text \<open>Property read \<open>o.k\<close>: \<open>undefined\<close> when the property is absent.\<close>

definition get_prop :: "string \<Rightarrow> jsobj \<Rightarrow> jsval" where
  "get_prop k ob = (case map_get k ob of None \<Rightarrow> JUndef | Some v \<Rightarrow> v)"

text \<open>\<open>s.startsWith(p)\<close>, \<open>s.includes(p)\<close> and \<open>s.split(c)\<close> for a one-character separator.\<close>

definition startsWith :: "string \<Rightarrow> string \<Rightarrow> bool" where
  "startsWith s p = (take (length p) s = p)"

fun str_includes :: "string \<Rightarrow> string \<Rightarrow> bool" where
  "str_includes [] p = (p = [])"
| "str_includes (c # cs) p = (startsWith (c # cs) p \<or> str_includes cs p)"

fun split_on :: "char \<Rightarrow> string \<Rightarrow> string list" where
  "split_on sep [] = [[]]"
| "split_on sep (c # cs) =
     (if c = sep then [] # split_on sep cs
      else (case split_on sep cs of
              [] \<Rightarrow> [[c]]
            | piece # pieces \<Rightarrow> (c # piece) # pieces))"

text \<open>Array read \<open>a[i]\<close> and destructuring: \<open>undefined\<close> (here \<open>None\<close>) past the end.\<close>

fun nth_opt :: "'a list \<Rightarrow> nat \<Rightarrow> 'a option" where
  "nth_opt [] i = None"
| "nth_opt (x # xs) 0 = Some x"
| "nth_opt (x # xs) (Suc i) = nth_opt xs i"

text \<open>
  The integer a number stands for is rounded to the nearest double, ties to the even
  significand: below \<open>2^53\<close> every integer is a double; above, the integer keeps its 53
  leading bits; from \<open>2^1024 - 2^970\<close> on the result is infinite.
\<close>

function bit_length :: "int \<Rightarrow> nat" where
  "bit_length n = (if n \<le> 0 then 0 else Suc (bit_length (n div 2)))"
  by pat_completeness auto

termination
  by (relation "measure nat") auto

declare bit_length.simps [simp del]

definition double_limit :: int where
  "double_limit = 2 ^ 1024"

definition round_to_double :: "int \<Rightarrow> jsval" where
  "round_to_double n =
     (let a = \<bar>n\<bar> in
      if a < 9007199254740992 then JNum n
      else
        (let k = bit_length a - 53;
             q = a div 2 ^ k;
             r = a mod 2 ^ k;
             q' = (if 2 ^ k < 2 * r \<or> (2 * r = 2 ^ k \<and> odd q) then q + 1 else q);
             m = q' * 2 ^ k
         in if double_limit \<le> m then JInf (n < 0)
            else JNum (if n < 0 then - m else m)))"

text \<open>
  The white space that \<open>parseInt\<close> skips is the language's \<open>WhiteSpace\<close> and
  \<open>LineTerminator\<close>: TAB, LF, VT, FF, CR, SP, and beyond ASCII U+00A0, U+1680, U+2000 to
  U+200A, U+2028, U+2029, U+202F, U+205F, U+3000 and U+FEFF, each listed here by its
  encoding. \<open>ws_length s\<close> is the length of the white-space character \<open>s\<close> begins with
  (0 when it begins with none) and \<open>skip_ws\<close> drops all leading white space.
\<close>

definition white_space :: "string list" where
  "white_space =
     [[CHR 0x09], [CHR 0x0A], [CHR 0x0B], [CHR 0x0C], [CHR 0x0D], [CHR 0x20],
      [CHR 0xC2, CHR 0xA0],
      [CHR 0xE1, CHR 0x9A, CHR 0x80],
      [CHR 0xE2, CHR 0x80, CHR 0x80], [CHR 0xE2, CHR 0x80, CHR 0x81],
      [CHR 0xE2, CHR 0x80, CHR 0x82], [CHR 0xE2, CHR 0x80, CHR 0x83],
      [CHR 0xE2, CHR 0x80, CHR 0x84], [CHR 0xE2, CHR 0x80, CHR 0x85],
      [CHR 0xE2, CHR 0x80, CHR 0x86], [CHR 0xE2, CHR 0x80, CHR 0x87],
      [CHR 0xE2, CHR 0x80, CHR 0x88], [CHR 0xE2, CHR 0x80, CHR 0x89],
      [CHR 0xE2, CHR 0x80, CHR 0x8A],
      [CHR 0xE2, CHR 0x80, CHR 0xA8], [CHR 0xE2, CHR 0x80, CHR 0xA9],
      [CHR 0xE2, CHR 0x80, CHR 0xAF],
      [CHR 0xE2, CHR 0x81, CHR 0x9F],
      [CHR 0xE3, CHR 0x80, CHR 0x80],
      [CHR 0xEF, CHR 0xBB, CHR 0xBF]]"

definition ws_length :: "string \<Rightarrow> nat" where
  "ws_length s = (case List.find (startsWith s) white_space of None \<Rightarrow> 0 | Some w \<Rightarrow> length w)"

fun skip_ws :: "string \<Rightarrow> string" where
  "skip_ws [] = []"
| "skip_ws (c # cs) =
     (case ws_length (c # cs) of 0 \<Rightarrow> c # cs | Suc n \<Rightarrow> skip_ws (drop n cs))"

text \<open>
  \<open>parseInt(s)\<close> with no radix: leading white space is skipped, a sign is read, a
  \<open>0x\<close>/\<open>0X\<close> prefix selects radix 16, and the longest run of digits is read; with no
  digit at all the result is \<open>NaN\<close>, otherwise it is the double nearest to the integer
  read (the language lets an implementation approximate a decimal numeral beyond its 20th
  significant digit; the correctly rounded value is taken here). \<open>parseInt(undefined)\<close>
  reads the text \<open>undefined\<close> and is \<open>NaN\<close>.
\<close>

definition hex_digits :: "(char \<times> int) list" where
  "hex_digits =
    [(CHR ''0'', 0), (CHR ''1'', 1), (CHR ''2'', 2), (CHR ''3'', 3), (CHR ''4'', 4),
     (CHR ''5'', 5), (CHR ''6'', 6), (CHR ''7'', 7), (CHR ''8'', 8), (CHR ''9'', 9),
     (CHR ''a'', 10), (CHR ''b'', 11), (CHR ''c'', 12), (CHR ''d'', 13), (CHR ''e'', 14),
     (CHR ''f'', 15), (CHR ''A'', 10), (CHR ''B'', 11), (CHR ''C'', 12), (CHR ''D'', 13),
     (CHR ''E'', 14), (CHR ''F'', 15)]"

definition digit_val :: "int \<Rightarrow> char \<Rightarrow> int option" where
  "digit_val radix c =
     (case map_of hex_digits c of
        None \<Rightarrow> None
      | Some d \<Rightarrow> if d < radix then Some d else None)"

fun read_digits :: "int \<Rightarrow> string \<Rightarrow> int option \<Rightarrow> int option" where
  "read_digits radix [] acc = acc"
| "read_digits radix (c # cs) acc =
     (case digit_val radix c of
        None \<Rightarrow> acc
      | Some d \<Rightarrow> read_digits radix cs
                    (Some ((case acc of None \<Rightarrow> 0 | Some a \<Rightarrow> a) * radix + d)))"

definition parse_unsigned :: "string \<Rightarrow> int option" where
  "parse_unsigned s =
     (if startsWith s ''0x'' \<or> startsWith s ''0X'' then read_digits 16 (drop 2 s) None
      else read_digits 10 s None)"

definition parse_signed :: "string \<Rightarrow> int option" where
  "parse_signed s =
     (case s of
        [] \<Rightarrow> None
      | c # cs \<Rightarrow>
          if c = CHR ''-'' then map_option uminus (parse_unsigned cs)
          else if c = CHR ''+'' then parse_unsigned cs
          else parse_unsigned s)"

definition parseInt :: "string option \<Rightarrow> jsval" where
  "parseInt x =
     (case x of
        None \<Rightarrow> JNaN
      | Some s \<Rightarrow>
          (case parse_signed (skip_ws s) of None \<Rightarrow> JNaN | Some n \<Rightarrow> round_to_double n))"

text \<open>
  \<open>v + 1\<close>: numeric addition, rounded, except that a string operand makes it a
  concatenation. \<open>true + 1\<close> is 2; \<open>null\<close> and \<open>false\<close> count as 0; \<open>undefined\<close> and \<open>NaN\<close>
  give \<open>NaN\<close>; an infinity stays what it is.
\<close>

fun js_plus_one :: "jsval \<Rightarrow> jsval" where
  "js_plus_one (JNum n) = round_to_double (n + 1)"
| "js_plus_one (JInf neg) = JInf neg"
| "js_plus_one (JBool b) = JNum (if b then 2 else 1)"
| "js_plus_one JNull = JNum 1"
| "js_plus_one (JStr s) = JStr (s @ ''1'')"
| "js_plus_one JUndef = JNaN"
| "js_plus_one JNaN = JNaN"

section \<open>The serial line parser and the device state store (esp32Service.js)\<close>

text \<open>
  The state of \<open>ESP32Service\<close> that the parser touches: the \<open>deviceStates\<close> map, the
  auxiliary heartbeat marker, and the notifications it has emitted, oldest first.
  \<open>Date.now()\<close> is a parameter \<open>now\<close> of each handler: every read of the clock within
  one synchronous handler call is taken to return the same millisecond. Registered
  listeners are taken to return normally.
\<close>

datatype esp_event =
    BuzzerPress string jsval int
  | DeviceUpdate string int
  | EspStatus jsobj int

record esp_state =
  deviceStates :: "jsobj jsmap"
  lastHeartbeatDevice :: "string option"
  lastHeartbeatTime :: "int option"
  emitted :: "esp_event list"

text \<open>
  \<open>handleBuzzerPress(macAddress, timestamp)\<close>: the press event is emitted first; the
  device entry is updated only when the map already has this exact key.
\<close>

definition handleBuzzerPress :: "int \<Rightarrow> string \<Rightarrow> jsval \<Rightarrow> esp_state \<Rightarrow> esp_state" where
  "handleBuzzerPress now macAddress timestamp s =
     (let s1 = s\<lparr>emitted := emitted s @ [BuzzerPress macAddress timestamp now]\<rparr> in
      case map_get macAddress (deviceStates s1) of
        None \<Rightarrow> s1
      | Some deviceState \<Rightarrow>
          let d1 = map_set ''pressed'' (JBool True) deviceState;
              d2 = map_set ''last_press'' timestamp d1;
              d3 = map_set ''press_count''
                     (js_plus_one (js_or (get_prop ''press_count'' d2) (JNum 0))) d2
          in s1\<lparr>deviceStates := map_set macAddress d3 (deviceStates s1)\<rparr>)"

text \<open>
  One \<open>key=value\<close> field of a \<open>DEVICE:\<close> line: stored under whatever key it names, with
  \<open>1\<close> and \<open>0\<close> coerced to booleans; a field with an empty key or without \<open>=\<close> is skipped.
  Assigning a string or a boolean to the key \<open>__proto__\<close> of an object literal is ignored by
  the language and creates no property.
\<close>

definition device_field :: "jsobj \<Rightarrow> string \<Rightarrow> jsobj" where
  "device_field params part =
     (let kv = split_on CHR ''='' part in
      case (nth_opt kv 0, nth_opt kv 1) of
        (Some key, Some val) \<Rightarrow>
          if key \<noteq> [] \<and> key \<noteq> ''__proto__'' then
            map_set key (if val = ''1'' then JBool True
                         else if val = ''0'' then JBool False else JStr val) params
          else params
      | _ \<Rightarrow> params)"

text \<open>The map key \<open>parseDeviceData\<close> files a line under: \<open>devicePart.split(':')[1]\<close>.\<close>

definition device_key :: "string \<Rightarrow> string option" where
  "device_key deviceString =
     (let parts = split_on CHR '','' deviceString in
      if length parts < 2 then None
      else if \<not> startsWith (hd parts) ''DEVICE:'' then None
      else case nth_opt (split_on CHR '':'' (hd parts)) 1 of
             None \<Rightarrow> None
           | Some macAddress \<Rightarrow> if macAddress = [] then None else Some macAddress)"

definition parseDeviceData :: "int \<Rightarrow> string \<Rightarrow> esp_state \<Rightarrow> esp_state" where
  "parseDeviceData now deviceString s =
     (case device_key deviceString of
        None \<Rightarrow> s
      | Some macAddress \<Rightarrow>
          let parts = split_on CHR '','' deviceString;
              existingState = (case map_get macAddress (deviceStates s) of
                                 None \<Rightarrow> [] | Some st \<Rightarrow> st);
              params0 = [(''mac_address'', JStr macAddress),
                         (''last_seen'', JNum now),
                         (''last_online'', get_prop ''last_online'' existingState),
                         (''online'', JBool False),
                         (''armed'', JBool False),
                         (''pressed'', JBool False),
                         (''press_count'', js_or (get_prop ''press_count'' existingState) (JNum 0)),
                         (''last_press'', js_or (get_prop ''last_press'' existingState) JNull)];
              params1 = foldl device_field params0 (tl parts);
              params2 =
                (if get_prop ''online'' params1 = JBool True
                 then map_set ''last_online'' (JNum now) params1
                 else if \<not> truthy (get_prop ''last_online'' params1)
                         \<and> truthy (get_prop ''last_online'' existingState)
                 then map_set ''last_online'' (get_prop ''last_online'' existingState) params1
                 else params1)
          in s\<lparr>deviceStates := map_set macAddress params2 (deviceStates s)\<rparr>)"

text \<open>\<open>handleTriviaModeDevice(macAddress)\<close>: discovery from a byte-count report.\<close>

definition handleTriviaModeDevice :: "int \<Rightarrow> string \<Rightarrow> esp_state \<Rightarrow> esp_state" where
  "handleTriviaModeDevice now macAddress s =
     (let existingState = (case map_get macAddress (deviceStates s) of
                             None \<Rightarrow> [] | Some st \<Rightarrow> st);
          deviceState = [(''mac_address'', JStr macAddress),
                         (''last_seen'', JNum now),
                         (''last_online'', JNum now),
                         (''online'', JBool True),
                         (''armed'', JBool False),
                         (''pressed'', JBool False),
                         (''press_count'', js_or (get_prop ''press_count'' existingState) (JNum 0)),
                         (''last_press'', js_or (get_prop ''last_press'' existingState) JNull),
                         (''discovery_mode'', JStr ''trivia_heartbeat'')]
      in s\<lparr>deviceStates := map_set macAddress deviceState (deviceStates s),
            emitted := emitted s @ [DeviceUpdate (''DISCOVERED:'' @ macAddress) now]\<rparr>)"

definition handleTriviaModeHeartbeat :: "int \<Rightarrow> string \<Rightarrow> esp_state \<Rightarrow> esp_state" where
  "handleTriviaModeHeartbeat now deviceId s =
     s\<lparr>lastHeartbeatDevice := Some deviceId, lastHeartbeatTime := Some now\<rparr>"

text \<open>
  \<open>s.match(re)\<close> for an unanchored pattern: the leftmost position at which the pattern
  matches. \<open>match_heartbeat\<close> is \<open>/Heartbeat from device (\d+)/\<close> tried at the head of
  its argument and \<open>match_mac\<close> is \<open>/from: ([A-F0-9:]{17})/\<close>; both return the group.
\<close>

fun regex_search :: "(string \<Rightarrow> string option) \<Rightarrow> string \<Rightarrow> string option" where
  "regex_search m [] = m []"
| "regex_search m (c # cs) =
     (case m (c # cs) of Some g \<Rightarrow> Some g | None \<Rightarrow> regex_search m cs)"

definition is_digit :: "char \<Rightarrow> bool" where
  "is_digit c = (c \<in> set ''0123456789'')"

definition is_mac_char :: "char \<Rightarrow> bool" where
  "is_mac_char c = (c \<in> set ''ABCDEF0123456789:'')"

definition match_heartbeat :: "string \<Rightarrow> string option" where
  "match_heartbeat s =
     (if startsWith s ''Heartbeat from device '' then
        (let ds = takeWhile is_digit (drop 22 s) in if ds = [] then None else Some ds)
      else None)"

definition match_mac :: "string \<Rightarrow> string option" where
  "match_mac s =
     (if startsWith s ''from: '' then
        (let g = take 17 (drop 6 s) in
         if length g = 17 \<and> list_all is_mac_char g then Some g else None)
      else None)"

text \<open>
  \<open>STATUS:\<close> lines: \<open>isNaN(value)\<close> applies the language's string-to-number conversion,
  which is not repository code; it is the parameter \<open>str_is_nan\<close>. The status object sent
  to the admin room is \<open>{connected: true, ...statusData, timestamp}\<close>; the event keeps the
  time stamp apart from the other properties. As for a device line, assigning a string or
  a number to the key \<open>__proto__\<close> creates no property.
\<close>

definition status_field :: "(string \<Rightarrow> bool) \<Rightarrow> jsobj \<Rightarrow> string \<Rightarrow> jsobj" where
  "status_field str_is_nan statusData part =
     (if str_includes part ''='' then
        (let kv = split_on CHR ''='' part in
         case (nth_opt kv 0, nth_opt kv 1) of
           (Some key, Some val) \<Rightarrow>
             if key = ''__proto__'' then statusData
             else map_set key (if str_is_nan val then JStr val else parseInt (Some val))
                    statusData
         | _ \<Rightarrow> statusData)
      else statusData)"

definition updateSystemStatus :: "int \<Rightarrow> jsobj \<Rightarrow> esp_state \<Rightarrow> esp_state" where
  "updateSystemStatus now statusData s =
     s\<lparr>emitted := emitted s @
        [EspStatus (filter (\<lambda>kv. fst kv \<noteq> ''timestamp'')
                      (foldl (\<lambda>ob kv. map_set (fst kv) (snd kv) ob)
                         [(''connected'', JBool True)] statusData)) now]\<rparr>"

text \<open>
  \<open>handleSerialData(data)\<close>: the branches in the order of the source. \<open>ACK:\<close>, \<open>ERROR:\<close>
  and unrecognised lines only write to the console.
\<close>

definition handleSerialData ::
  "(string \<Rightarrow> bool) \<Rightarrow> int \<Rightarrow> string \<Rightarrow> esp_state \<Rightarrow> esp_state" where
  "handleSerialData str_is_nan now data s =
     (if startsWith data ''BUZZER:'' then
        (let fields = split_on CHR '','' (drop 7 data) in
         case nth_opt fields 0 of
           None \<Rightarrow> s
         | Some macAddress \<Rightarrow> handleBuzzerPress now macAddress (parseInt (nth_opt fields 1)) s)
      else if startsWith data ''STATUS:'' then
        updateSystemStatus now
          (foldl (status_field str_is_nan) [] (split_on CHR '','' (drop 7 data))) s
      else if startsWith data ''DEVICE:'' then
        (let s1 = parseDeviceData now data s in
         s1\<lparr>emitted := emitted s1 @ [DeviceUpdate data now]\<rparr>)
      else if str_includes data ''Heartbeat from device'' then
        (case regex_search match_heartbeat data of
           None \<Rightarrow> s
         | Some deviceId \<Rightarrow> handleTriviaModeHeartbeat now deviceId s)
      else if str_includes data ''Received'' \<and> str_includes data ''bytes from:'' then
        (case regex_search match_mac data of
           None \<Rightarrow> s
         | Some macAddress \<Rightarrow> handleTriviaModeDevice now macAddress s)
      else s)"

text \<open>
  \<open>getDevices()\<close>: the snapshot. \<open>now - x\<close> converts \<open>x\<close> to a number first; for a string
  that conversion is the parameter \<open>str_num\<close> (returning a number, an infinity or \<open>NaN\<close>).
  The difference is rounded; subtracting an infinity gives the opposite infinity.
  \<open>v < b\<close> for a finite \<open>b\<close> holds of \<open>-Infinity\<close> and of no other non-finite value.
\<close>

fun to_number :: "(string \<Rightarrow> jsval) \<Rightarrow> jsval \<Rightarrow> jsval" where
  "to_number str_num (JNum n) = JNum n"
| "to_number str_num (JInf neg) = JInf neg"
| "to_number str_num (JBool b) = JNum (if b then 1 else 0)"
| "to_number str_num JNull = JNum 0"
| "to_number str_num JUndef = JNaN"
| "to_number str_num JNaN = JNaN"
| "to_number str_num (JStr s) = str_num s"

definition js_minus :: "(string \<Rightarrow> jsval) \<Rightarrow> int \<Rightarrow> jsval \<Rightarrow> jsval" where
  "js_minus str_num a v =
     (case to_number str_num v of
        JNum n \<Rightarrow> round_to_double (a - n)
      | JInf neg \<Rightarrow> JInf (\<not> neg)
      | _ \<Rightarrow> JNaN)"

definition js_less :: "jsval \<Rightarrow> int \<Rightarrow> bool" where
  "js_less v b = (case v of JNum n \<Rightarrow> n < b | JInf neg \<Rightarrow> neg | _ \<Rightarrow> False)"

record device_view =
  v_mac_address :: string
  v_status :: string
  v_last_seen :: jsval
  v_last_online :: jsval
  v_online :: bool
  v_armed :: bool
  v_pressed :: bool
  v_press_count :: jsval
  v_last_press :: jsval
  v_time_since_last_seen :: jsval
  v_time_since_last_online :: jsval

definition staleThreshold :: int where
  "staleThreshold = 60000"

definition device_view_of ::
  "(string \<Rightarrow> jsval) \<Rightarrow> int \<Rightarrow> string \<Rightarrow> jsobj \<Rightarrow> device_view" where
  "device_view_of str_num now macAddress state =
     (let timeSinceLastSeen = js_minus str_num now (js_or (get_prop ''last_seen'' state) (JNum 0));
          isOnline = (get_prop ''online'' state = JBool True
                      \<and> js_less timeSinceLastSeen staleThreshold);
          lastOnlineTimestamp =
            (if isOnline
             then js_or (js_or (get_prop ''last_online'' state) (get_prop ''last_seen'' state)) (JNum now)
             else js_or (get_prop ''last_online'' state) JNull);
          timeSinceLastOnline =
            (if truthy lastOnlineTimestamp then js_minus str_num now lastOnlineTimestamp
             else JNull)
      in \<lparr>v_mac_address = macAddress,
          v_status = (if isOnline then ''online'' else ''offline''),
          v_last_seen = js_or (get_prop ''last_seen'' state) (JNum now),
          v_last_online = js_or lastOnlineTimestamp JNull,
          v_online = isOnline,
          v_armed = (get_prop ''armed'' state = JBool True),
          v_pressed = (get_prop ''pressed'' state = JBool True),
          v_press_count = js_or (get_prop ''press_count'' state) (JNum 0),
          v_last_press = js_or (get_prop ''last_press'' state) JNull,
          v_time_since_last_seen = timeSinceLastSeen,
          v_time_since_last_online = timeSinceLastOnline\<rparr>)"

text \<open>The snapshot returns the views and leaves the service state as it found it.\<close>

definition getDevices ::
  "(string \<Rightarrow> jsval) \<Rightarrow> int \<Rightarrow> esp_state \<Rightarrow> device_view list \<times> esp_state" where
  "getDevices str_num now s =
     (map (\<lambda>entry. device_view_of str_num now (fst entry) (snd entry)) (deviceStates s), s)"

text \<open>
  A time-stamp field in which \<open>parseInt\<close> finds no digit to read: after the leading white
  space and an optional sign, the next character is not a decimal digit (or there is none).
\<close>

definition no_leading_integer :: "string \<Rightarrow> bool" where
  "no_leading_integer s =
     (case skip_ws s of
        [] \<Rightarrow> True
      | c # cs \<Rightarrow>
          if c = CHR ''-'' \<or> c = CHR ''+''
          then (case cs of [] \<Rightarrow> True | d # _ \<Rightarrow> \<not> is_digit d)
          else \<not> is_digit c)"

text \<open>
  Stand-ins for the two string-to-number parameters in concrete runs: an \<open>isNaN\<close> that
  holds of every text, and a conversion that finds no number in any text.
\<close>

definition keep_text :: "string \<Rightarrow> bool" where
  "keep_text v = True"

definition no_number :: "string \<Rightarrow> jsval" where
  "no_number v = JNaN"

text \<open>The service as constructed: no device known, nothing emitted.\<close>

definition esp_init :: esp_state where
  "esp_init = \<lparr>deviceStates = [], lastHeartbeatDevice = None, lastHeartbeatTime = None,
                emitted = []\<rparr>"

text \<open>The stored state of one device; the empty object when the map has no such key.\<close>

definition entry_of :: "string \<Rightarrow> esp_state \<Rightarrow> jsobj" where
  "entry_of mac s = (case map_get mac (deviceStates s) of None \<Rightarrow> [] | Some st \<Rightarrow> st)"

text \<open>A store with one device last seen 69 seconds and one last seen 20 seconds before 70000.\<close>

definition demo_store :: esp_state where
  "demo_store = esp_init\<lparr>deviceStates :=
      [(''AA'', [(''online'', JBool True), (''last_seen'', JNum 1000)]),
       (''BB'', [(''online'', JBool True), (''last_seen'', JNum 50000)])]\<rparr>"

text \<open>
  A run of the service: the lines the transport delivers, each with the clock reading at
  which it is handled, applied in order.
\<close>

fun run_lines :: "(string \<Rightarrow> bool) \<Rightarrow> (int \<times> string) list \<Rightarrow> esp_state \<Rightarrow> esp_state" where
  "run_lines f [] s = s"
| "run_lines f (e # es) s = run_lines f es (handleSerialData f (fst e) (snd e) s)"

text \<open>
  A store in which two devices were discovered and the first of them was pressed once, at
  the time 1700000000000.
\<close>

definition pressed_store :: esp_state where
  "pressed_store =
     run_lines keep_text
       [(1, ''Received 16 bytes from: EC:62:60:1D:E8:D4''),
        (2, ''Received 16 bytes from: AA:BB:CC:DD:EE:FF''),
        (3, ''BUZZER:EC:62:60:1D:E8:D4,1700000000000'')] esp_init"

text \<open>The stored \<open>last_online\<close> of a key (\<open>undefined\<close> while the key has no entry).\<close>

definition last_online_of :: "string \<Rightarrow> esp_state \<Rightarrow> jsval" where
  "last_online_of k s = get_prop ''last_online'' (entry_of k s)"

text \<open>
  The order on stored time stamps: an absent one is below every value, numbers are ordered
  as numbers, and nothing else is comparable.
\<close>

fun ts_le :: "jsval \<Rightarrow> jsval \<Rightarrow> bool" where
  "ts_le JUndef v = True"
| "ts_le (JNum a) (JNum b) = (a \<le> b)"
| "ts_le u v = False"

text \<open>
  A line that \<open>parseDeviceData\<close> accepts and one of whose fields is named \<open>last_online\<close>.
\<close>

definition names_last_online :: "string \<Rightarrow> bool" where
  "names_last_online line =
     (device_key line \<noteq> None
      \<and> list_ex (\<lambda>part. nth_opt (split_on CHR ''='' part) 0 = Some ''last_online'')
           (tl (split_on CHR '','' line)))"

text \<open>Every stored \<open>last_online\<close> is absent or a clock reading not after \<open>t\<close>.\<close>

definition stamps_upto :: "int \<Rightarrow> esp_state \<Rightarrow> bool" where
  "stamps_upto t s =
     (\<forall>k. last_online_of k s = JUndef \<or> (\<exists>x. last_online_of k s = JNum x \<and> x \<le> t))"

text \<open>Three timed lines for the device \<open>11:22:33:44:55:66\<close>.\<close>

definition line_online :: "int \<times> string" where
  "line_online = (1000, ''DEVICE:11:22:33:44:55:66,online=1,armed=0,pressed=0'')"

definition line_offline :: "int \<times> string" where
  "line_offline = (2000, ''DEVICE:11:22:33:44:55:66,online=0'')"

definition line_override :: "int \<times> string" where
  "line_override = (2000, ''DEVICE:11:22:33:44:55:66,online=0,last_online=5'')"

section \<open>The configuration store (database.js)\<close>

text \<open>
  The four configuration tables, with the columns the services read. Columns declared
  without \<open>NOT NULL\<close> may hold \<open>NULL\<close> (\<open>None\<close>); a comparison with \<open>NULL\<close> selects no row.
\<close>

record buzzer_binding =
  bb_id :: int
  bb_mac_address :: string
  bb_device_name :: string
  bb_is_active :: "int option"

record osc_command =
  oc_id :: int
  oc_name :: string
  oc_address :: string
  oc_arguments :: "string option"

record osc_target =
  ot_id :: int
  ot_name :: string
  ot_ip_address :: string
  ot_port :: int
  ot_is_active :: "int option"

record command_mapping =
  bcm_id :: int
  bcm_buzzer_binding_id :: "int option"
  bcm_osc_command_id :: "int option"
  bcm_osc_target_id :: "int option"
  bcm_is_active :: "int option"

record database =
  buzzer_bindings :: "buzzer_binding list"
  osc_commands :: "osc_command list"
  osc_targets :: "osc_target list"
  buzzer_command_mappings :: "command_mapping list"

text \<open>A row of the join that \<open>getMappingsForBuzzer\<close> selects.\<close>

record mapping_row =
  mac_address :: string
  device_name :: string
  command_name :: string
  command_address :: string
  command_args :: "string option"
  target_name :: string
  ip_address :: string
  port :: int

text \<open>
  The query of \<open>getMappingsForBuzzer(macAddress)\<close>: the mappings joined with their binding,
  command and target, for this address, where mapping, binding and target are all active.
  Rows come in storage order.
\<close>

definition getMappingsForBuzzer :: "database \<Rightarrow> string \<Rightarrow> mapping_row list" where
  "getMappingsForBuzzer d macAddress =
     [\<lparr>mac_address = bb_mac_address bb, device_name = bb_device_name bb,
       command_name = oc_name oc, command_address = oc_address oc,
       command_args = oc_arguments oc, target_name = ot_name ot,
       ip_address = ot_ip_address ot, port = ot_port ot\<rparr>.
        bcm \<leftarrow> buzzer_command_mappings d,
        bb \<leftarrow> buzzer_bindings d, bcm_buzzer_binding_id bcm = Some (bb_id bb),
        oc \<leftarrow> osc_commands d, bcm_osc_command_id bcm = Some (oc_id oc),
        ot \<leftarrow> osc_targets d, bcm_osc_target_id bcm = Some (ot_id ot),
        bb_mac_address bb = macAddress \<and> bcm_is_active bcm = Some 1
          \<and> bb_is_active bb = Some 1 \<and> ot_is_active ot = Some 1]"

text \<open>\<open>db.get('SELECT * FROM t WHERE id = ?')\<close>: the first row with that id, if any.\<close>

definition find_command :: "database \<Rightarrow> int \<Rightarrow> osc_command option" where
  "find_command d i = List.find (\<lambda>c. oc_id c = i) (osc_commands d)"

definition find_target :: "database \<Rightarrow> int \<Rightarrow> osc_target option" where
  "find_target d i = List.find (\<lambda>t. ot_id t = i) (osc_targets d)"

section \<open>The OSC dispatch service\<close>

text \<open>
  What \<open>JSON.parse\<close> returns for a command's argument text. Numbers and the literals keep
  their source text; only the shape matters to the service.
\<close>

datatype json =
    JsonArray "json list"
  | JsonString string
  | JsonScalar string
  | JsonObject "(string \<times> json) list"

text \<open>A row written by \<open>logActivity\<close> and an \<open>osc-sent\<close> notification.\<close>

record activity =
  event_type :: string
  buzzer_mac :: jsval
  osc_address :: jsval
  target_ip :: jsval
  success :: bool
  message :: string

record osc_event =
  ev_test :: bool
  ev_buzzer_mac :: "string option"
  ev_device_name :: "string option"
  ev_command_name :: "string option"
  ev_osc_address :: "string option"
  ev_osc_args :: "json option"
  ev_target_name :: "string option"
  ev_target_ip :: "string option"
  ev_target_port :: "int option"
  ev_timestamp :: int
  ev_success :: bool
  ev_error :: "string option"

text \<open>
  Everything the service does to the outside is recorded, in order, with the outcome the
  outside answered: \<open>None\<close> for success, \<open>Some msg\<close> for the error raised. A client is
  named by the number of clients constructed before it. A send attempt is the promise
  around \<open>client.send(address, ...args, callback)\<close>: it fails when the callback receives an
  error and also when spreading \<open>args\<close> raises. Constructing a client is taken not to raise.
  One call of the service is modelled at a time, from its first statement to its return.
\<close>

datatype effect =
    Query string "string option"
  | GetRow string int "string option"
  | ClientCreated nat string int
  | SendAttempt nat string json "string option"
  | LogAppend activity "string option"
  | Publish osc_event "string option"

record osc_state =
  clients :: "nat jsmap"
  trace :: "effect list"

text \<open>
  The collaborators: the configuration tables, and for each call the answer given. An
  answer may change over time: it depends on the call and on the number of effects that
  happened before it. \<open>json_parse\<close> is \<open>JSON.parse\<close> (\<open>None\<close> when it raises) and \<open>clock\<close>
  supplies the time of \<open>new Date()\<close>.
\<close>

record env =
  db :: database
  query_err :: "nat \<Rightarrow> string \<Rightarrow> string option"
  get_err :: "nat \<Rightarrow> string \<Rightarrow> int \<Rightarrow> string option"
  log_err :: "nat \<Rightarrow> activity \<Rightarrow> string option"
  send_err :: "nat \<Rightarrow> nat \<Rightarrow> string \<Rightarrow> json \<Rightarrow> string option"
  emit_err :: "nat \<Rightarrow> osc_event \<Rightarrow> string option"
  json_parse :: "string \<Rightarrow> json option"
  clock :: "nat \<Rightarrow> int"

text \<open>
  An asynchronous step either resolves with a value or rejects with an error message, and
  leaves a new state either way. \<open>and_then\<close> is sequencing under \<open>await\<close>; \<open>try_catch\<close> is
  \<open>try { ... } catch (error) { ... }\<close>.
\<close>

type_synonym 'a io = "osc_state \<Rightarrow> (string + 'a) \<times> osc_state"

definition resolve :: "'a \<Rightarrow> 'a io" where
  "resolve x s = (Inr x, s)"

definition throw :: "string \<Rightarrow> 'a io" where
  "throw err s = (Inl err, s)"

definition and_then :: "'a io \<Rightarrow> ('a \<Rightarrow> 'b io) \<Rightarrow> 'b io" where
  "and_then m k s = (case m s of (Inl err, s') \<Rightarrow> (Inl err, s') | (Inr x, s') \<Rightarrow> k x s')"

definition try_catch :: "'a io \<Rightarrow> (string \<Rightarrow> 'a io) \<Rightarrow> 'a io" where
  "try_catch m h s = (case m s of (Inl err, s') \<Rightarrow> h err s' | (Inr x, s') \<Rightarrow> (Inr x, s'))"

definition outcome :: "string option \<Rightarrow> string + unit" where
  "outcome r = (case r of None \<Rightarrow> Inr () | Some err \<Rightarrow> Inl err)"

text \<open>The calls to the collaborators.\<close>

definition db_getMappingsForBuzzer :: "env \<Rightarrow> string \<Rightarrow> mapping_row list io" where
  "db_getMappingsForBuzzer e macAddress s =
     (let r = query_err e (length (trace s)) macAddress;
          s' = s\<lparr>trace := trace s @ [Query macAddress r]\<rparr>
      in case r of
           None \<Rightarrow> (Inr (getMappingsForBuzzer (db e) macAddress), s')
         | Some err \<Rightarrow> (Inl err, s'))"

definition db_get :: "env \<Rightarrow> string \<Rightarrow> (database \<Rightarrow> int \<Rightarrow> 'r option) \<Rightarrow> int \<Rightarrow> 'r option io" where
  "db_get e table lookup i s =
     (let r = get_err e (length (trace s)) table i;
          s' = s\<lparr>trace := trace s @ [GetRow table i r]\<rparr>
      in case r of
           None \<Rightarrow> (Inr (lookup (db e) i), s')
         | Some err \<Rightarrow> (Inl err, s'))"

definition logActivity :: "env \<Rightarrow> activity \<Rightarrow> unit io" where
  "logActivity e a s =
     (let r = log_err e (length (trace s)) a
      in (outcome r, s\<lparr>trace := trace s @ [LogAppend a r]\<rparr>))"

definition emit :: "env \<Rightarrow> osc_event \<Rightarrow> unit io" where
  "emit e ev s =
     (let r = emit_err e (length (trace s)) ev
      in (outcome r, s\<lparr>trace := trace s @ [Publish ev r]\<rparr>))"

definition client_send :: "env \<Rightarrow> nat \<Rightarrow> string \<Rightarrow> json \<Rightarrow> unit io" where
  "client_send e client address args s =
     (let r = send_err e (length (trace s)) client address args
      in (outcome r, s\<lparr>trace := trace s @ [SendAttempt client address args r]\<rparr>))"

text \<open>Decimal text of an integer, as a template literal renders a number.\<close>

fun digits_of :: "nat \<Rightarrow> string" where
  "digits_of n =
     (if n < 10 then [''0123456789'' ! n]
      else digits_of (n div 10) @ [''0123456789'' ! (n mod 10)])"

declare digits_of.simps [simp del]

definition show_int :: "int \<Rightarrow> string" where
  "show_int i = (if i < 0 then CHR ''-'' # digits_of (nat (- i)) else digits_of (nat i))"

text \<open>
  The pool key of a target: \<open>`${ip_address}:${port}`\<close>. (A port is an integer that the
  language prints in plain decimal, as it does every integer below \<open>10^21\<close>.)
\<close>

definition targetKey :: "string \<Rightarrow> int \<Rightarrow> string" where
  "targetKey ip p = ip @ '':'' @ show_int p"

text \<open>
  The clients constructed so far, and \<open>clients.get(targetKey)\<close> followed by the creation
  and \<open>clients.set\<close> when the pool has no client under the key.
\<close>

fun created :: "effect list \<Rightarrow> (nat \<times> string \<times> int) list" where
  "created [] = []"
| "created (ClientCreated c ip p # tr) = (c, ip, p) # created tr"
| "created (x # tr) = created tr"

definition get_client :: "string \<Rightarrow> int \<Rightarrow> nat io" where
  "get_client ip p s =
     (case map_get (targetKey ip p) (clients s) of
        Some client \<Rightarrow> (Inr client, s)
      | None \<Rightarrow>
          (let client = length (created (trace s))
           in (Inr client,
               s\<lparr>clients := map_set (targetKey ip p) client (clients s),
                 trace := trace s @ [ClientCreated client ip p]\<rparr>)))"

text \<open>
  \<open>text || '[]'\<close> and \<open>JSON.parse\<close> inside its own \<open>try\<close>: an empty array when it raises.
\<close>

definition or_empty_array :: "string option \<Rightarrow> string" where
  "or_empty_array text = (case text of None \<Rightarrow> ''[]'' | Some t \<Rightarrow> if t = [] then ''[]'' else t)"

definition parse_or_empty :: "env \<Rightarrow> string \<Rightarrow> json" where
  "parse_or_empty e text = (case json_parse e text of None \<Rightarrow> JsonArray [] | Some v \<Rightarrow> v)"

definition parse_args :: "env \<Rightarrow> string option \<Rightarrow> json" where
  "parse_args e text = parse_or_empty e (or_empty_array text)"

record buzzer_data =
  bd_mac_address :: string
  bd_timestamp :: jsval
  bd_received_at :: int

text \<open>\<open>device_name || buzzerData.mac_address\<close>\<close>

definition shown_name :: "mapping_row \<Rightarrow> buzzer_data \<Rightarrow> string" where
  "shown_name mapping buzzerData =
     (if device_name mapping = [] then bd_mac_address buzzerData else device_name mapping)"

definition sent_activity :: "mapping_row \<Rightarrow> buzzer_data \<Rightarrow> activity" where
  "sent_activity mapping buzzerData =
     \<lparr>event_type = ''osc_sent'', buzzer_mac = JStr (bd_mac_address buzzerData),
      osc_address = JStr (command_address mapping), target_ip = JStr (ip_address mapping),
      success = True,
      message = ''Sent to '' @ target_name mapping @ '' from '' @ shown_name mapping buzzerData\<rparr>"

definition failed_activity :: "mapping_row \<Rightarrow> buzzer_data \<Rightarrow> string \<Rightarrow> activity" where
  "failed_activity mapping buzzerData err =
     \<lparr>event_type = ''osc_failed'', buzzer_mac = JStr (bd_mac_address buzzerData),
      osc_address = JStr (command_address mapping), target_ip = JStr (ip_address mapping),
      success = False, message = err\<rparr>"

definition sent_event :: "mapping_row \<Rightarrow> buzzer_data \<Rightarrow> json \<Rightarrow> int \<Rightarrow> osc_event" where
  "sent_event mapping buzzerData args t =
     \<lparr>ev_test = False, ev_buzzer_mac = Some (bd_mac_address buzzerData),
      ev_device_name = Some (shown_name mapping buzzerData), ev_command_name = None,
      ev_osc_address = Some (command_address mapping), ev_osc_args = Some args,
      ev_target_name = Some (target_name mapping), ev_target_ip = Some (ip_address mapping),
      ev_target_port = Some (port mapping), ev_timestamp = t, ev_success = True,
      ev_error = None\<rparr>"

definition failed_event :: "mapping_row \<Rightarrow> buzzer_data \<Rightarrow> string \<Rightarrow> int \<Rightarrow> osc_event" where
  "failed_event mapping buzzerData err t =
     \<lparr>ev_test = False, ev_buzzer_mac = Some (bd_mac_address buzzerData),
      ev_device_name = Some (shown_name mapping buzzerData), ev_command_name = None,
      ev_osc_address = Some (command_address mapping), ev_osc_args = None,
      ev_target_name = Some (target_name mapping), ev_target_ip = Some (ip_address mapping),
      ev_target_port = Some (port mapping), ev_timestamp = t, ev_success = False,
      ev_error = Some err\<rparr>"

text \<open>\<open>this.emit('osc-sent', {..., timestamp: new Date().toISOString(), ...})\<close>\<close>

definition emit_now :: "env \<Rightarrow> (int \<Rightarrow> osc_event) \<Rightarrow> unit io" where
  "emit_now e mk s = emit e (mk (clock e (length (trace s)))) s"

text \<open>
  \<open>sendOSCMessage(mapping, buzzerData)\<close>: the body of the \<open>try\<close> is the send, the log row
  and the notification, in that order; the \<open>catch\<close> writes the failure row and notifies the
  failure, and nothing catches what these two raise.
\<close>

definition sendOSCMessage :: "env \<Rightarrow> mapping_row \<Rightarrow> buzzer_data \<Rightarrow> unit io" where
  "sendOSCMessage e mapping buzzerData =
     try_catch
       (let args = parse_args e (command_args mapping) in
        and_then (get_client (ip_address mapping) (port mapping)) (\<lambda>client.
        and_then (client_send e client (command_address mapping) args) (\<lambda>_.
        and_then (logActivity e (sent_activity mapping buzzerData)) (\<lambda>_.
        emit_now e (sent_event mapping buzzerData args)))))
       (\<lambda>err.
        and_then (logActivity e (failed_activity mapping buzzerData err)) (\<lambda>_.
        emit_now e (failed_event mapping buzzerData err)))"

text \<open>The loop \<open>for (const mapping of mappings) await this.sendOSCMessage(...)\<close>.\<close>

fun send_all :: "env \<Rightarrow> mapping_row list \<Rightarrow> buzzer_data \<Rightarrow> unit io" where
  "send_all e [] buzzerData = resolve ()"
| "send_all e (mapping # mappings) buzzerData =
     and_then (sendOSCMessage e mapping buzzerData) (\<lambda>_. send_all e mappings buzzerData)"

definition unmapped_activity :: "string \<Rightarrow> activity" where
  "unmapped_activity mac =
     \<lparr>event_type = ''buzzer_press_unmapped'', buzzer_mac = JStr mac, osc_address = JNull,
      target_ip = JNull, success = False, message = ''No mappings configured''\<rparr>"

definition error_activity :: "string \<Rightarrow> string \<Rightarrow> activity" where
  "error_activity mac err =
     \<lparr>event_type = ''buzzer_press_error'', buzzer_mac = JStr mac, osc_address = JNull,
      target_ip = JNull, success = False, message = err\<rparr>"

definition processBuzzerPress :: "env \<Rightarrow> buzzer_data \<Rightarrow> unit io" where
  "processBuzzerPress e buzzerData =
     try_catch
       (and_then (db_getMappingsForBuzzer e (bd_mac_address buzzerData)) (\<lambda>mappings.
          if length mappings = 0
          then logActivity e (unmapped_activity (bd_mac_address buzzerData))
          else send_all e mappings buzzerData))
       (\<lambda>err. logActivity e (error_activity (bd_mac_address buzzerData) err))"

text \<open>
  \<open>sendTestCommand(testData)\<close>: the administrator's test of one command on one target. It
  looks both up by id, then uses the same pool, log and notification; its \<open>catch\<close> records
  the failure and raises the error again.
\<close>

record test_data =
  commandId :: int
  targetId :: int
  customArgs :: "string option"

definition test_args :: "env \<Rightarrow> test_data \<Rightarrow> osc_command \<Rightarrow> json" where
  "test_args e testData command =
     parse_or_empty e
       (case customArgs testData of
          None \<Rightarrow> or_empty_array (oc_arguments command)
        | Some t \<Rightarrow> if t = [] then or_empty_array (oc_arguments command) else t)"

definition test_sent_activity :: "osc_command \<Rightarrow> osc_target \<Rightarrow> activity" where
  "test_sent_activity command target =
     \<lparr>event_type = ''test_osc_sent'', buzzer_mac = JNull,
      osc_address = JStr (oc_address command), target_ip = JStr (ot_ip_address target),
      success = True,
      message = ''Test command: '' @ oc_name command @ '' to '' @ ot_name target\<rparr>"

definition test_failed_activity :: "test_data \<Rightarrow> string \<Rightarrow> activity" where
  "test_failed_activity testData err =
     \<lparr>event_type = ''test_osc_failed'', buzzer_mac = JNull,
      osc_address = JNum (commandId testData), target_ip = JNum (targetId testData),
      success = False, message = err\<rparr>"

definition test_sent_event :: "osc_command \<Rightarrow> osc_target \<Rightarrow> json \<Rightarrow> int \<Rightarrow> osc_event" where
  "test_sent_event command target args t =
     \<lparr>ev_test = True, ev_buzzer_mac = None, ev_device_name = None,
      ev_command_name = Some (oc_name command), ev_osc_address = Some (oc_address command),
      ev_osc_args = Some args, ev_target_name = Some (ot_name target),
      ev_target_ip = Some (ot_ip_address target), ev_target_port = Some (ot_port target),
      ev_timestamp = t, ev_success = True, ev_error = None\<rparr>"

definition test_failed_event :: "string \<Rightarrow> int \<Rightarrow> osc_event" where
  "test_failed_event err t =
     \<lparr>ev_test = True, ev_buzzer_mac = None, ev_device_name = None, ev_command_name = None,
      ev_osc_address = None, ev_osc_args = None, ev_target_name = None, ev_target_ip = None,
      ev_target_port = None, ev_timestamp = t, ev_success = False, ev_error = Some err\<rparr>"

definition sendTestCommand :: "env \<Rightarrow> test_data \<Rightarrow> unit io" where
  "sendTestCommand e testData =
     try_catch
       (and_then (db_get e ''osc_commands'' find_command (commandId testData)) (\<lambda>found_command.
        case found_command of
          None \<Rightarrow> throw (''Command not found: '' @ show_int (commandId testData))
        | Some command \<Rightarrow>
        and_then (db_get e ''osc_targets'' find_target (targetId testData)) (\<lambda>found_target.
        case found_target of
          None \<Rightarrow> throw (''Target not found: '' @ show_int (targetId testData))
        | Some target \<Rightarrow>
        (let args = test_args e testData command in
         and_then (get_client (ot_ip_address target) (ot_port target)) (\<lambda>client.
         and_then (client_send e client (oc_address command) args) (\<lambda>_.
         and_then (logActivity e (test_sent_activity command target)) (\<lambda>_.
         emit_now e (test_sent_event command target args))))))))
       (\<lambda>err.
        and_then (logActivity e (test_failed_activity testData err)) (\<lambda>_.
        and_then (emit_now e (test_failed_event err)) (\<lambda>_.
        throw err)))"

text \<open>What a stretch of the trace holds: the sends, the log rows and the notifications.\<close>

fun send_attempts :: "effect list \<Rightarrow> (nat \<times> string \<times> string option) list" where
  "send_attempts [] = []"
| "send_attempts (SendAttempt c a j r # tr) = (c, a, r) # send_attempts tr"
| "send_attempts (x # tr) = send_attempts tr"

fun log_attempts :: "effect list \<Rightarrow> (activity \<times> string option) list" where
  "log_attempts [] = []"
| "log_attempts (LogAppend a r # tr) = (a, r) # log_attempts tr"
| "log_attempts (x # tr) = log_attempts tr"

fun publish_attempts :: "effect list \<Rightarrow> (osc_event \<times> string option) list" where
  "publish_attempts [] = []"
| "publish_attempts (Publish ev r # tr) = (ev, r) # publish_attempts tr"
| "publish_attempts (x # tr) = publish_attempts tr"

text \<open>The rows the log accepted and the notifications that reached the observers.\<close>

definition log_rows :: "effect list \<Rightarrow> activity list" where
  "log_rows tr = map fst (filter (\<lambda>x. snd x = None) (log_attempts tr))"

definition published :: "effect list \<Rightarrow> osc_event list" where
  "published tr = map fst (filter (\<lambda>x. snd x = None) (publish_attempts tr))"

text \<open>The type of each row handed to the log, with the log's answer.\<close>

definition log_outcomes :: "effect list \<Rightarrow> (string \<times> string option) list" where
  "log_outcomes tr = map (\<lambda>x. (event_type (fst x), snd x)) (log_attempts tr)"

text \<open>What one call added to the trace.\<close>

definition added :: "osc_state \<Rightarrow> osc_state \<Rightarrow> effect list" where
  "added s s' = drop (length (trace s)) (trace s')"

text \<open>The outcome of each send in a stretch of the trace.\<close>

definition send_results :: "effect list \<Rightarrow> string option list" where
  "send_results tr = map (\<lambda>x. snd (snd x)) (send_attempts tr)"

text \<open>The log accepts every row and every notification reaches the observers.\<close>

definition healthy_sinks :: "env \<Rightarrow> bool" where
  "healthy_sinks e = ((\<forall>n a. log_err e n a = None) \<and> (\<forall>n ev. emit_err e n ev = None))"

text \<open>
  The log row and the notification that \<open>sendOSCMessage\<close> produces for a mapping whose send
  returned \<open>r\<close>: those of the \<open>try\<close> body for \<open>None\<close>, those of the \<open>catch\<close> for an error.
\<close>

definition outcome_activity :: "mapping_row \<Rightarrow> buzzer_data \<Rightarrow> string option \<Rightarrow> activity" where
  "outcome_activity mapping buzzerData r =
     (case r of None \<Rightarrow> sent_activity mapping buzzerData
              | Some err \<Rightarrow> failed_activity mapping buzzerData err)"

definition outcome_event :: "env \<Rightarrow> mapping_row \<Rightarrow> buzzer_data \<Rightarrow> string option \<Rightarrow> int \<Rightarrow> osc_event" where
  "outcome_event e mapping buzzerData r t =
     (case r of None \<Rightarrow> sent_event mapping buzzerData (parse_args e (command_args mapping)) t
              | Some err \<Rightarrow> failed_event mapping buzzerData err t)"

text \<open>The service as constructed: an empty pool, nothing done yet.\<close>

definition osc_init :: osc_state where
  "osc_init = \<lparr>clients = [], trace = []\<rparr>"

text \<open>
  A configuration with one buzzer mapped to one command on three targets, an environment
  in which the second client constructed cannot send, and a press of that buzzer.
\<close>

definition demo_db :: database where
  "demo_db =
     \<lparr>buzzer_bindings =
        [\<lparr>bb_id = 1, bb_mac_address = ''AA:BB:CC:DD:EE:FF'', bb_device_name = ''Buzzer 1'',
          bb_is_active = Some 1\<rparr>],
      osc_commands =
        [\<lparr>oc_id = 1, oc_name = ''GO'', oc_address = ''/go'', oc_arguments = Some ''[]''\<rparr>],
      osc_targets =
        [\<lparr>ot_id = 1, ot_name = ''Stage'', ot_ip_address = ''10.0.0.1'', ot_port = 53000,
          ot_is_active = Some 1\<rparr>,
         \<lparr>ot_id = 2, ot_name = ''Lights'', ot_ip_address = ''10.0.0.2'', ot_port = 8000,
          ot_is_active = Some 1\<rparr>,
         \<lparr>ot_id = 3, ot_name = ''Audio'', ot_ip_address = ''10.0.0.3'', ot_port = 9000,
          ot_is_active = Some 1\<rparr>],
      buzzer_command_mappings =
        [\<lparr>bcm_id = 1, bcm_buzzer_binding_id = Some 1, bcm_osc_command_id = Some 1,
          bcm_osc_target_id = Some 1, bcm_is_active = Some 1\<rparr>,
         \<lparr>bcm_id = 2, bcm_buzzer_binding_id = Some 1, bcm_osc_command_id = Some 1,
          bcm_osc_target_id = Some 2, bcm_is_active = Some 1\<rparr>,
         \<lparr>bcm_id = 3, bcm_buzzer_binding_id = Some 1, bcm_osc_command_id = Some 1,
          bcm_osc_target_id = Some 3, bcm_is_active = Some 1\<rparr>]\<rparr>"

definition demo_env :: env where
  "demo_env =
     \<lparr>db = demo_db, query_err = (\<lambda>n mac. None), get_err = (\<lambda>n table i. None),
      log_err = (\<lambda>n a. None),
      send_err = (\<lambda>n client address args. if client = 1 then Some ''ENOTFOUND'' else None),
      emit_err = (\<lambda>n ev. None), json_parse = (\<lambda>text. Some (JsonArray [])),
      clock = (\<lambda>n. int n)\<rparr>"

definition demo_press :: buzzer_data where
  "demo_press = \<lparr>bd_mac_address = ''AA:BB:CC:DD:EE:FF'', bd_timestamp = JNum 1700000000000,
                  bd_received_at = 1700000000001\<rparr>"

text \<open>The same environment with the buzzer's only mapping switched off.\<close>

definition quiet_env :: env where
  "quiet_env = demo_env\<lparr>db := demo_db\<lparr>buzzer_command_mappings :=
     [\<lparr>bcm_id = 1, bcm_buzzer_binding_id = Some 1, bcm_osc_command_id = Some 1,
       bcm_osc_target_id = Some 1, bcm_is_active = Some 0\<rparr>]\<rparr>\<rparr>"

text \<open>
  That environment with an activity log that rejects every row, and with one that rejects
  only the rows of type \<open>buzzer_press_unmapped\<close>.
\<close>

definition mute_env :: env where
  "mute_env = quiet_env\<lparr>log_err := (\<lambda>n a. Some ''SQLITE_BUSY'')\<rparr>"

definition picky_env :: env where
  "picky_env =
     quiet_env\<lparr>log_err := (\<lambda>n a. if event_type a = ''buzzer_press_unmapped''
                                   then Some ''SQLITE_BUSY'' else None)\<rparr>"

text \<open>
  The environment of the three targets again, now with the first client unable to send and
  the activity log rejecting every row.
\<close>

definition broken_env :: env where
  "broken_env =
     demo_env\<lparr>send_err := (\<lambda>n client address args.
                              if client = 0 then Some ''ENOTFOUND'' else None),
               log_err := (\<lambda>n a. Some ''SQLITE_BUSY'')\<rparr>"

text \<open>
  A request that ends in a send: a mapping dispatched for a press, or an administrator's
  test. \<open>request_target\<close> is the address and port of the target the request names (for a
  test, of the target row it looks up, when command and target both exist).
\<close>

datatype request = Dispatch mapping_row buzzer_data | Test test_data

fun run_request :: "env \<Rightarrow> request \<Rightarrow> unit io" where
  "run_request e (Dispatch mapping buzzerData) = sendOSCMessage e mapping buzzerData"
| "run_request e (Test testData) = sendTestCommand e testData"

fun request_target :: "database \<Rightarrow> request \<Rightarrow> (string \<times> int) option" where
  "request_target d (Dispatch mapping buzzerData) = Some (ip_address mapping, port mapping)"
| "request_target d (Test testData) =
     (case find_command d (commandId testData) of
        None \<Rightarrow> None
      | Some command \<Rightarrow>
          (case find_target d (targetId testData) of
             None \<Rightarrow> None
           | Some target \<Rightarrow> Some (ot_ip_address target, ot_port target)))"

text \<open>The lookups by id of the test path do not fail.\<close>

definition reads_succeed :: "env \<Rightarrow> bool" where
  "reads_succeed e = (\<forall>n table i. get_err e n table i = None)"

text \<open>
  The client a request for this address and port uses in state \<open>s\<close>: the pooled one, or
  the one about to be constructed.
\<close>

definition pool_client :: "string \<Rightarrow> int \<Rightarrow> osc_state \<Rightarrow> nat" where
  "pool_client ip p s =
     (case map_get (targetKey ip p) (clients s) of
        Some c \<Rightarrow> c
      | None \<Rightarrow> length (created (trace s)))"

text \<open>
  A configuration in which two targets of different names share one address and port, the
  mapping row of the first and a test request for the second.
\<close>

definition shared_db :: database where
  "shared_db =
     \<lparr>buzzer_bindings =
        [\<lparr>bb_id = 1, bb_mac_address = ''AA:BB:CC:DD:EE:FF'', bb_device_name = ''Buzzer 1'',
          bb_is_active = Some 1\<rparr>],
      osc_commands =
        [\<lparr>oc_id = 1, oc_name = ''GO'', oc_address = ''/go'', oc_arguments = Some ''[]''\<rparr>],
      osc_targets =
        [\<lparr>ot_id = 1, ot_name = ''Stage'', ot_ip_address = ''10.0.0.1'', ot_port = 53000,
          ot_is_active = Some 1\<rparr>,
         \<lparr>ot_id = 2, ot_name = ''Stage backup'', ot_ip_address = ''10.0.0.1'', ot_port = 53000,
          ot_is_active = Some 1\<rparr>],
      buzzer_command_mappings =
        [\<lparr>bcm_id = 1, bcm_buzzer_binding_id = Some 1, bcm_osc_command_id = Some 1,
          bcm_osc_target_id = Some 1, bcm_is_active = Some 1\<rparr>]\<rparr>"

definition shared_env :: env where
  "shared_env = demo_env\<lparr>db := shared_db\<rparr>"

definition stage_mapping :: mapping_row where
  "stage_mapping =
     \<lparr>mac_address = ''AA:BB:CC:DD:EE:FF'', device_name = ''Buzzer 1'', command_name = ''GO'',
      command_address = ''/go'', command_args = Some ''[]'', target_name = ''Stage'',
      ip_address = ''10.0.0.1'', port = 53000\<rparr>"

definition backup_test :: test_data where
  "backup_test = \<lparr>commandId = 1, targetId = 2, customArgs = None\<rparr>"

text \<open>A mapping row for a target at the same address on the next port.\<close>

definition side_mapping :: mapping_row where
  "side_mapping = stage_mapping\<lparr>target_name := ''Stage monitor'', port := 53001\<rparr>"

text \<open>
  The pool as the service keeps it: no client is pooled under two keys, and every pooled
  client was constructed earlier. It holds of the service as constructed and after every
  request.
\<close>

definition pool_wf :: "osc_state \<Rightarrow> bool" where
  "pool_wf s =
     (distinct (map snd (clients s))
      \<and> list_all (\<lambda>c. c < length (created (trace s))) (map snd (clients s)))"

text \<open>
  The order of the two sink actions in a stretch of the trace: \<open>first_sink_is_log\<close> holds
  when there is a sink action and the first one is a log append; \<open>publish_follows_log\<close>
  holds when every publication comes directly after a log append that succeeded.
\<close>

fun first_sink_is_log :: "effect list \<Rightarrow> bool" where
  "first_sink_is_log [] = False"
| "first_sink_is_log (LogAppend a r # tr) = True"
| "first_sink_is_log (Publish ev r # tr) = False"
| "first_sink_is_log (x # tr) = first_sink_is_log tr"

fun publish_follows_log :: "effect list \<Rightarrow> bool" where
  "publish_follows_log [] = True"
| "publish_follows_log (LogAppend a None # Publish ev r # tr) = publish_follows_log tr"
| "publish_follows_log (Publish ev r # tr) = False"
| "publish_follows_log (x # tr) = publish_follows_log tr"

text \<open>The collaborator answered this effect with an error.\<close>

fun effect_failed :: "effect \<Rightarrow> bool" where
  "effect_failed (Query mac r) = (r \<noteq> None)"
| "effect_failed (GetRow table i r) = (r \<noteq> None)"
| "effect_failed (ClientCreated c ip p) = False"
| "effect_failed (SendAttempt c a j r) = (r \<noteq> None)"
| "effect_failed (LogAppend a r) = (r \<noteq> None)"
| "effect_failed (Publish ev r) = (r \<noteq> None)"

text \<open>
  \<open>accepted_row_published\<close> holds of a stretch of the trace when every row the log accepted
  is directly followed by a publication carrying the same success flag.
\<close>

fun accepted_row_published :: "effect list \<Rightarrow> bool" where
  "accepted_row_published [] = True"
| "accepted_row_published (LogAppend a None # Publish ev r # tr) =
     (ev_success ev = success a \<and> accepted_row_published tr)"
| "accepted_row_published (LogAppend a None # tr) = False"
| "accepted_row_published (x # tr) = accepted_row_published tr"

text \<open>
  The sink actions that follow the send of a mapping, checked against what is to be
  recorded. \<open>cause\<close> is \<open>None\<close> while the success of the send is being recorded and
  \<open>Some err\<close> while the failure \<open>err\<close> is. The row of that outcome is appended first. When
  the log accepts it, the notification of the same outcome is published directly after it.
  When either action fails while a success is being recorded, the failure is recorded next,
  in the same way, with the error of that action as its cause. When either action fails
  while a failure is being recorded, nothing follows and the call raises that error. When
  both actions succeed, nothing follows and the call returns normally.
\<close>

fun records_outcome ::
  "env \<Rightarrow> mapping_row \<Rightarrow> buzzer_data \<Rightarrow> string option \<Rightarrow> string + unit \<Rightarrow> effect list \<Rightarrow> bool" where
  "records_outcome e m bd cause res (LogAppend a (Some err) # tr) =
     (a = outcome_activity m bd cause
      \<and> (if cause = None then records_outcome e m bd (Some err) res tr
         else tr = [] \<and> res = Inl err))"
| "records_outcome e m bd cause res (LogAppend a None # Publish ev r # tr) =
     (a = outcome_activity m bd cause
      \<and> ev = outcome_event e m bd cause (ev_timestamp ev)
      \<and> (case r of
            None \<Rightarrow> tr = [] \<and> res = Inr ()
          | Some err \<Rightarrow>
              if cause = None then records_outcome e m bd (Some err) res tr
              else tr = [] \<and> res = Inl err))"
| "records_outcome e m bd cause res tr = False"

text \<open>
  What one call of \<open>sendOSCMessage\<close> for the mapping \<open>m\<close> adds to the trace, with its
  result: the construction of the client when the pool had none, one send of the
  mapping's command through that client, and the recording of the outcome of that send.
\<close>

fun send_then_record ::
  "env \<Rightarrow> mapping_row \<Rightarrow> buzzer_data \<Rightarrow> string + unit \<Rightarrow> effect list \<Rightarrow> bool" where
  "send_then_record e m bd res (ClientCreated c ip p # SendAttempt c' a j r # tr) =
     (c' = c \<and> ip = ip_address m \<and> p = port m \<and> a = command_address m
      \<and> records_outcome e m bd r res tr)"
| "send_then_record e m bd res (SendAttempt c a j r # tr) =
     (a = command_address m \<and> records_outcome e m bd r res tr)"
| "send_then_record e m bd res tr = False"

text \<open>All that is shown of the sink actions after a send whose outcome was \<open>r\<close>.\<close>

definition sinks_fine ::
  "env \<Rightarrow> mapping_row \<Rightarrow> buzzer_data \<Rightarrow> string option \<Rightarrow> string + unit \<Rightarrow> effect list \<Rightarrow> bool" where
  "sinks_fine e m bd r res sinks =
     (records_outcome e m bd r res sinks \<and> sinks \<noteq> []
      \<and> first_sink_is_log sinks \<and> publish_follows_log sinks \<and> accepted_row_published sinks
      \<and> ((\<exists>err. res = Inl err) \<longleftrightarrow> effect_failed (last sinks)))"

text \<open>
  An environment whose activity log rejects every row, one whose observers fail on every
  success notification, and one whose activity log rejects the rows of successes only.
\<close>

definition down_env :: env where
  "down_env = shared_env\<lparr>log_err := (\<lambda>n a. Some ''SQLITE_BUSY'')\<rparr>"

definition deaf_env :: env where
  "deaf_env = shared_env\<lparr>emit_err := (\<lambda>n ev. if ev_success ev then Some ''listener failed'' else None)\<rparr>"

definition fussy_env :: env where
  "fussy_env = shared_env\<lparr>log_err := (\<lambda>n a. if success a then Some ''SQLITE_BUSY'' else None)\<rparr>"

section \<open>Basic facts about the primitives\<close>

lemmas parse_eval = parseInt_def parse_signed_def parse_unsigned_def digit_val_def
  hex_digits_def ws_length_def white_space_def round_to_double_def

lemma bit_length_bounds: "0 < n \<Longrightarrow> 2 ^ (bit_length n - 1) \<le> n \<and> n < 2 ^ bit_length n"
proof (induction n rule: bit_length.induct)
  case (1 n)
  show ?case
  proof (cases "n div 2 \<le> 0")
    case True
    then have "n = 1" using 1(2) by auto
    then have "bit_length n = 1"
      by (simp add: bit_length.simps[of 1] bit_length.simps[of 0])
    then show ?thesis using \<open>n = 1\<close> by simp
  next
    case False
    then have ih: "2 ^ (bit_length (n div 2) - 1) \<le> n div 2" "n div 2 < 2 ^ bit_length (n div 2)"
      using 1 by auto
    have pos: "0 < bit_length (n div 2)"
      using False by (subst bit_length.simps) simp
    have bl: "bit_length n = Suc (bit_length (n div 2))"
      using 1(2) by (subst bit_length.simps) simp
    have "(2::int) ^ bit_length (n div 2) = 2 * 2 ^ (bit_length (n div 2) - 1)"
      using pos by (cases "bit_length (n div 2)") auto
    then have lo: "(2::int) ^ bit_length (n div 2) \<le> n" using ih(1) by linarith
    have hi: "n < 2 * 2 ^ bit_length (n div 2)" using ih(2) by linarith
    show ?thesis unfolding bl using lo hi by simp
  qed
qed

text \<open>Rounding moves no number across a bound that is itself below \<open>2^53\<close>.\<close>

lemma round_to_double_less:
  assumes "\<bar>b\<bar> < 9007199254740992"
  shows "js_less (round_to_double x) b = (x < b)"
proof (cases "\<bar>x\<bar> < 9007199254740992")
  case True
  then show ?thesis by (simp add: round_to_double_def js_less_def)
next
  case False
  define a where "a = \<bar>x\<bar>"
  define k where "k = bit_length a - 53"
  define q where "q = a div 2 ^ k"
  define r where "r = a mod 2 ^ k"
  define q' where "q' = (if 2 ^ k < 2 * r \<or> (2 * r = 2 ^ k \<and> odd q) then q + 1 else q)"
  define m where "m = q' * 2 ^ k"
  have p53: "(2::int) ^ 53 = 9007199254740992" by simp
  have big: "(2::int) ^ 53 \<le> a" unfolding p53 using False by (simp add: a_def)
  have apos: "0 < a" using False by (simp add: a_def)
  have bl: "2 ^ (bit_length a - 1) \<le> a" "a < 2 ^ bit_length a"
    using bit_length_bounds[OF apos] by auto
  have "(2::int) ^ 53 < 2 ^ bit_length a" using big bl(2) by (rule le_less_trans)
  then have blk: "53 < bit_length a"
    by (rule power_less_imp_less_exp[rotated]) simp
  then have ksum: "bit_length a - 1 = k + 52" by (simp add: k_def)
  have kpos: "0 < k" using blk by (simp add: k_def)
  have "(2::int) ^ 52 * 2 ^ k = 2 ^ (k + 52)" by (simp only: power_add mult.commute)
  then have le: "(2::int) ^ 52 * 2 ^ k \<le> a" using bl(1) ksum by simp
  have "((2::int) ^ 52 * 2 ^ k) div 2 ^ k \<le> a div 2 ^ k" using le by (rule zdiv_mono1) simp
  then have q52: "(2::int) ^ 52 \<le> q" unfolding q_def by (simp del: power_numeral)
  have "q \<le> q'" by (simp add: q'_def)
  with q52 have q'52: "(2::int) ^ 52 \<le> q'" by (rule order_trans)
  have two: "(2::int) ^ 1 \<le> 2 ^ k" using kpos by (intro power_increasing) auto
  have q'pos: "0 \<le> q'" using q'52 by simp
  have "(2::int) ^ 52 * 2 ^ 1 \<le> q' * 2 ^ k" using q'52 two q'pos by (rule mult_mono) simp
  then have mbig: "9007199254740992 \<le> m" unfolding m_def by simp
  have rd: "round_to_double x
              = (if double_limit \<le> m then JInf (x < 0) else JNum (if x < 0 then - m else m))"
    unfolding round_to_double_def Let_def m_def q'_def r_def q_def k_def a_def
    using False by (simp only: if_False)
  have xb: "x < 0 \<Longrightarrow> x < b" "\<not> x < 0 \<Longrightarrow> \<not> x < b"
    using False assms by auto
  show ?thesis
    unfolding rd using mbig xb assms by (auto simp: js_less_def)
qed

lemma map_get_map_set:
  "map_get k (map_set k' v m) = (if k = k' then Some v else map_get k m)"
  by (induction m) auto

lemma get_prop_map_set:
  "get_prop k (map_set k' v ob) = (if k = k' then v else get_prop k ob)"
  by (simp add: get_prop_def map_get_map_set)

lemma split_on_no_sep: "sep \<notin> set s \<Longrightarrow> split_on sep s = [s]"
  by (induction s) auto

lemma split_on_append:
  "sep \<notin> set a \<Longrightarrow> split_on sep (a @ sep # b) = a # split_on sep b"
  by (induction a) auto

lemma split_on_nonempty: "split_on sep s \<noteq> []"
  by (induction s) (auto split: list.splits)

lemma split_on_hd: "hd (split_on sep s) = takeWhile (\<lambda>c. c \<noteq> sep) s"
  by (induction s) (auto split: list.splits simp: split_on_nonempty)

lemma startsWith_append: "startsWith (p @ s) p"
  by (simp add: startsWith_def)

lemma not_digit_no_value: "\<not> is_digit c \<Longrightarrow> digit_val 10 c = None"
  by (simp add: is_digit_def digit_val_def hex_digits_def)

lemma str_includes_absent: "p \<noteq> [] \<Longrightarrow> hd p \<notin> set s \<Longrightarrow> \<not> str_includes s p"
  by (induction s) (auto simp: startsWith_def take_Cons' neq_Nil_conv split: if_splits)

lemma regex_search_skip:
  "(\<And>t. t \<noteq> [] \<Longrightarrow> hd t \<in> set a \<Longrightarrow> m t = None) \<Longrightarrow>
   regex_search m (a @ b) = regex_search m b"
  by (induction a) auto

lemma read_digits_no_digit:
  "(case s of [] \<Rightarrow> True | d # _ \<Rightarrow> \<not> is_digit d) \<Longrightarrow> parse_unsigned s = None"
  by (cases s) (auto simp: parse_unsigned_def startsWith_def not_digit_no_value is_digit_def)

lemma parse_signed_no_digit:
  "(case r of
      [] \<Rightarrow> True
    | c # cs \<Rightarrow>
        if c = CHR ''-'' \<or> c = CHR ''+''
        then (case cs of [] \<Rightarrow> True | d # _ \<Rightarrow> \<not> is_digit d)
        else \<not> is_digit c) \<Longrightarrow> parse_signed r = None"
  by (cases r) (auto simp: parse_signed_def read_digits_no_digit split: if_splits)

text \<open>
  A no-break space before the digits is skipped like any white space, and a numeral
  beyond \<open>2^53\<close> is rounded.
\<close>

lemma parseInt_skips_nbsp:
  "parseInt (Some (CHR 0xC2 # CHR 0xA0 # ''42'')) = JNum 42
   \<and> \<not> no_leading_integer (CHR 0xC2 # CHR 0xA0 # ''42'')"
  by (simp add: parse_eval startsWith_def no_leading_integer_def is_digit_def)

lemma parseInt_rounds:
  "parseInt (Some ''9007199254740993'') = JNum 9007199254740992"
  by (simp add: parse_eval startsWith_def Let_def bit_length.simps double_limit_def)

lemma parseInt_no_leading_integer: "no_leading_integer ts \<Longrightarrow> parseInt (Some ts) = JNaN"
  unfolding no_leading_integer_def parseInt_def
  by (simp add: parse_signed_no_digit)

lemma buzzer_fields:
  "CHR '','' \<notin> set ident \<Longrightarrow> CHR '','' \<notin> set ts \<Longrightarrow>
   split_on CHR '','' (drop 7 (''BUZZER:'' @ ident @ '','' @ ts)) = [ident, ts]"
  by (simp add: split_on_append split_on_no_sep)

lemma device_key_form:
  assumes "CHR '','' \<notin> set ident"
  shows "device_key (''DEVICE:'' @ ident @ '','' @ rest)
           = (if takeWhile (\<lambda>c. c \<noteq> CHR '':'') ident = [] then None
              else Some (takeWhile (\<lambda>c. c \<noteq> CHR '':'') ident))"
proof -
  have c: "CHR '','' \<notin> set (''DEVICE:'' @ ident)" using assms by simp
  have sp: "split_on CHR '','' (''DEVICE:'' @ ident @ '','' @ rest)
              = (''DEVICE:'' @ ident) # split_on CHR '','' rest"
    using split_on_append[OF c, of rest] by simp
  have col: "split_on CHR '':'' (''DEVICE:'' @ ident) = ''DEVICE'' # split_on CHR '':'' ident"
    using split_on_append[of "CHR '':''" "''DEVICE''" ident] by simp
  have n1: "nth_opt (split_on CHR '':'' ident) 0 = Some (takeWhile (\<lambda>c. c \<noteq> CHR '':'') ident)"
    using split_on_hd[of "CHR '':''" ident] split_on_nonempty[of "CHR '':''" ident]
    by (cases "split_on CHR '':'' ident") auto
  have len: "\<not> length ((''DEVICE:'' @ ident) # split_on CHR '','' rest) < 2"
    using split_on_nonempty[of "CHR '',''" rest]
    by (cases "split_on CHR '','' rest") auto
  have sw: "startsWith (''DEVICE:'' @ ident) ''DEVICE:''" by (rule startsWith_append)
  show ?thesis
    unfolding device_key_def sp Let_def
    using len sw n1 by (simp add: col)
qed

lemma split_on_pieces: "p \<in> set (split_on sep s) \<Longrightarrow> sep \<notin> set p"
  by (induction s arbitrary: p) (auto split: if_splits list.splits)

lemma nth_opt_mem: "nth_opt xs i = Some x \<Longrightarrow> x \<in> set xs"
  by (induction xs i rule: nth_opt.induct) auto

lemma device_key_no_colon: "device_key line = Some k \<Longrightarrow> CHR '':'' \<notin> set k"
  unfolding device_key_def Let_def
  by (auto split: if_splits option.splits dest!: nth_opt_mem split_on_pieces)

lemma parseDeviceData_stores:
  "device_key line = Some k \<Longrightarrow> map_get k (deviceStates (parseDeviceData now line s)) \<noteq> None"
  by (simp add: parseDeviceData_def Let_def map_get_map_set)

lemma handleBuzzerPress_other_key:
  "k \<noteq> mac \<Longrightarrow>
   map_get k (deviceStates (handleBuzzerPress now mac ts s)) = map_get k (deviceStates s)"
  by (simp add: handleBuzzerPress_def Let_def map_get_map_set split: option.splits)

lemma str_includes_here: "str_includes (p @ b) p"
proof (cases "p @ b")
  case Nil
  then show ?thesis by simp
next
  case (Cons c cs)
  have "startsWith (p @ b) p" by (rule startsWith_append)
  then show ?thesis using Cons by simp
qed

lemma str_includes_append: "str_includes (a @ p @ b) p"
  by (induction a) (auto simp: str_includes_here)

lemma digit_chars: "is_digit c \<Longrightarrow> c \<noteq> CHR ''f'' \<and> c \<noteq> CHR ''H''"
  by (auto simp: is_digit_def)

lemma mac_chars: "is_mac_char c \<Longrightarrow> c \<noteq> CHR ''H''"
  by (auto simp: is_mac_char_def)

lemma match_mac_needs_f: "t \<noteq> [] \<Longrightarrow> hd t \<noteq> CHR ''f'' \<Longrightarrow> match_mac t = None"
  by (cases t) (auto simp: match_mac_def startsWith_def)

lemma match_mac_here:
  "length mac = 17 \<Longrightarrow> list_all is_mac_char mac \<Longrightarrow> match_mac (''from: '' @ mac) = Some mac"
  by (simp add: match_mac_def startsWith_def)

lemma report_line_routes:
  assumes "list_all is_digit n" and "length mac = 17" and "list_all is_mac_char mac"
  shows "handleSerialData f now (''Received '' @ n @ '' bytes from: '' @ mac) s
           = handleTriviaModeDevice now mac s"
proof -
  let ?line = "''Received '' @ n @ '' bytes from: '' @ mac"
  have nd: "\<And>c. c \<in> set n \<Longrightarrow> c \<noteq> CHR ''f'' \<and> c \<noteq> CHR ''H''"
    using assms(1) digit_chars by (auto simp: list_all_iff)
  have md: "\<And>c. c \<in> set mac \<Longrightarrow> c \<noteq> CHR ''H''"
    using assms(3) mac_chars by (auto simp: list_all_iff)
  have b1: "\<not> startsWith ?line ''BUZZER:''" "\<not> startsWith ?line ''STATUS:''"
           "\<not> startsWith ?line ''DEVICE:''"
    by (simp_all add: startsWith_def)
  have "hd ''Heartbeat from device'' \<notin> set ?line"
    using nd md by auto
  then have b2: "\<not> str_includes ?line ''Heartbeat from device''"
    by (intro str_includes_absent) simp_all
  have b3: "str_includes ?line ''Received''"
    by (simp add: startsWith_def)
  have "str_includes ((''Received '' @ n @ '' '') @ ''bytes from:'' @ ('' '' @ mac)) ''bytes from:''"
    by (rule str_includes_append)
  then have b4: "str_includes ?line ''bytes from:''" by simp
  have "regex_search match_mac ((''Received '' @ n @ '' bytes '') @ (''from: '' @ mac))
          = regex_search match_mac (''from: '' @ mac)"
  proof (rule regex_search_skip)
    fix t :: string assume "t \<noteq> []" and "hd t \<in> set (''Received '' @ n @ '' bytes '')"
    then have "hd t \<noteq> CHR ''f''" using nd by auto
    with \<open>t \<noteq> []\<close> show "match_mac t = None" by (rule match_mac_needs_f)
  qed
  moreover have "regex_search match_mac (''from: '' @ mac) = Some mac"
    using match_mac_here[OF assms(2,3)] by simp
  ultimately have b5: "regex_search match_mac ?line = Some mac" by simp
  show ?thesis
    unfolding handleSerialData_def using b1 b2 b3 b4 b5 by simp
qed

lemma ts_le_trans: "ts_le a b \<Longrightarrow> ts_le b c \<Longrightarrow> ts_le a c"
  by (cases a; cases b; cases c) auto

lemma device_field_last_online:
  "nth_opt (split_on CHR ''='' part) 0 \<noteq> Some ''last_online'' \<Longrightarrow>
   get_prop ''last_online'' (device_field params part) = get_prop ''last_online'' params"
  by (auto simp: device_field_def Let_def get_prop_map_set split: option.splits)

lemma foldl_device_field_last_online:
  "\<not> list_ex (\<lambda>part. nth_opt (split_on CHR ''='' part) 0 = Some ''last_online'') parts \<Longrightarrow>
   get_prop ''last_online'' (foldl device_field params parts) = get_prop ''last_online'' params"
  by (induction parts arbitrary: params) (auto simp: device_field_last_online)

lemma last_online_press:
  "last_online_of k (handleBuzzerPress now mac ts s) = last_online_of k s"
  by (auto simp: last_online_of_def entry_of_def handleBuzzerPress_def Let_def map_get_map_set
        get_prop_map_set split: option.splits)

lemma last_online_trivia:
  "last_online_of k (handleTriviaModeDevice now mac s)
     = (if k = mac then JNum now else last_online_of k s)"
  by (auto simp: last_online_of_def entry_of_def handleTriviaModeDevice_def Let_def
        map_get_map_set get_prop_def)

lemma last_online_device:
  assumes "\<not> names_last_online line"
  shows "last_online_of k (parseDeviceData now line s)
     = (if device_key line = Some k
           \<and> get_prop ''online'' (entry_of k (parseDeviceData now line s)) = JBool True
        then JNum now else last_online_of k s)"
proof (cases "device_key line")
  case None
  then show ?thesis by (simp add: parseDeviceData_def)
next
  case (Some mac)
  let ?ex = "case map_get mac (deviceStates s) of None \<Rightarrow> [] | Some st \<Rightarrow> st"
  let ?p0 = "[(''mac_address'', JStr mac), (''last_seen'', JNum now),
              (''last_online'', get_prop ''last_online'' ?ex), (''online'', JBool False),
              (''armed'', JBool False), (''pressed'', JBool False),
              (''press_count'', js_or (get_prop ''press_count'' ?ex) (JNum 0)),
              (''last_press'', js_or (get_prop ''last_press'' ?ex) JNull)]"
  let ?p1 = "foldl device_field ?p0 (tl (split_on CHR '','' line))"
  have nl: "\<not> list_ex (\<lambda>part. nth_opt (split_on CHR ''='' part) 0 = Some ''last_online'')
                 (tl (split_on CHR '','' line))"
    using assms Some by (simp add: names_last_online_def)
  have lo1: "get_prop ''last_online'' ?p1 = get_prop ''last_online'' ?ex"
    unfolding foldl_device_field_last_online[OF nl] by (simp add: get_prop_def)
  show ?thesis
  proof (cases "k = mac")
    case False
    then show ?thesis using Some
      by (simp add: parseDeviceData_def Let_def last_online_of_def entry_of_def map_get_map_set)
  next
    case True
    show ?thesis
      unfolding True using Some lo1
      by (simp add: parseDeviceData_def Let_def last_online_of_def entry_of_def map_get_map_set
            get_prop_map_set)
  qed
qed


lemma last_online_step:
  assumes "\<not> names_last_online l"
  shows "last_online_of k (handleSerialData f t l s) = last_online_of k s
       \<or> last_online_of k (handleSerialData f t l s) = JNum t"
proof -
  have ev: "last_online_of k (s'\<lparr>emitted := ev\<rparr>) = last_online_of k s'" for s' ev
    by (simp add: last_online_of_def entry_of_def)
  have hb: "last_online_of k (handleTriviaModeHeartbeat t d s) = last_online_of k s" for d
    by (simp add: last_online_of_def entry_of_def handleTriviaModeHeartbeat_def)
  have st: "last_online_of k (updateSystemStatus t d s) = last_online_of k s" for d
    by (simp add: last_online_of_def entry_of_def updateSystemStatus_def)
  show ?thesis
    unfolding handleSerialData_def Let_def
    by (auto simp: ev hb st last_online_press last_online_trivia last_online_device[OF assms]
          split: option.splits)
qed

lemma stamps_step:
  assumes "stamps_upto t0 s" and "t0 \<le> t" and "\<not> names_last_online l"
  shows "stamps_upto t (handleSerialData f t l s)"
    and "ts_le (last_online_of k s) (last_online_of k (handleSerialData f t l s))"
proof -
  have old: "last_online_of k' s = JUndef \<or> (\<exists>x. last_online_of k' s = JNum x \<and> x \<le> t)" for k'
    using assms(1,2) unfolding stamps_upto_def by (metis order_trans)
  show "stamps_upto t (handleSerialData f t l s)"
    unfolding stamps_upto_def
  proof
    fix k'
    show "last_online_of k' (handleSerialData f t l s) = JUndef
        \<or> (\<exists>x. last_online_of k' (handleSerialData f t l s) = JNum x \<and> x \<le> t)"
      using last_online_step[OF assms(3), of k' f t s] old[of k'] by auto
  qed
  show "ts_le (last_online_of k s) (last_online_of k (handleSerialData f t l s))"
    using last_online_step[OF assms(3), of k f t s] old[of k] by auto
qed

lemma run_lines_monotone:
  assumes "stamps_upto t0 s" and "sorted (t0 # map fst es)"
      and "\<forall>e \<in> set es. \<not> names_last_online (snd e)"
  shows "ts_le (last_online_of k s) (last_online_of k (run_lines f es s))
       \<and> stamps_upto (last (t0 # map fst es)) (run_lines f es s)"
  using assms
proof (induction es arbitrary: s t0)
  case Nil
  then show ?case
    by (cases "last_online_of k s") (auto simp: stamps_upto_def dest: spec[of _ k])
next
  case (Cons e es)
  let ?s1 = "handleSerialData f (fst e) (snd e) s"
  have le: "t0 \<le> fst e" and no: "\<not> names_last_online (snd e)"
    using Cons.prems(2,3) by auto
  have inv1: "stamps_upto (fst e) ?s1"
    using stamps_step(1)[OF Cons.prems(1) le no] .
  have mono1: "ts_le (last_online_of k s) (last_online_of k ?s1)"
    using stamps_step(2)[OF Cons.prems(1) le no] .
  have srt: "sorted (fst e # map fst es)" using Cons.prems(2) by simp
  have rest: "\<forall>e' \<in> set es. \<not> names_last_online (snd e')" using Cons.prems(3) by simp
  from Cons.IH[OF inv1 srt rest]
  have "ts_le (last_online_of k ?s1) (last_online_of k (run_lines f es ?s1))"
   and "stamps_upto (last (fst e # map fst es)) (run_lines f es ?s1)" by auto
  with mono1 show ?case by (auto intro: ts_le_trans)
qed

lemma run_lines_append: "run_lines f (es1 @ es2) s = run_lines f es2 (run_lines f es1 s)"
  by (induction es1 arbitrary: s) auto

lemma stamps_init: "stamps_upto t esp_init"
  by (simp add: stamps_upto_def last_online_of_def entry_of_def esp_init_def get_prop_def)

lemma sorted_from_last: "sorted (xs @ ys) \<Longrightarrow> sorted (last (t # xs) # ys)" if "xs \<noteq> []" for t :: int
  using that by (induction xs) (auto simp: sorted_append)

lemma last_online_monotone_aux:
  assumes "sorted (map fst (es1 @ es2))"
      and "\<forall>e \<in> set (es1 @ es2). \<not> names_last_online (snd e)"
  shows "ts_le (last_online_of k (run_lines f es1 esp_init))
               (last_online_of k (run_lines f (es1 @ es2) esp_init))"
proof (cases es1)
  case Nil
  then show ?thesis
    by (simp add: last_online_of_def entry_of_def esp_init_def get_prop_def)
next
  case (Cons e es)
  let ?t0 = "fst e"
  have s1: "sorted (?t0 # map fst es1)" using assms(1) Cons by (simp add: sorted_append)
  have n1: "\<forall>e \<in> set es1. \<not> names_last_online (snd e)" using assms(2) by simp
  have inv1: "stamps_upto (last (?t0 # map fst es1)) (run_lines f es1 esp_init)"
    using run_lines_monotone[OF stamps_init s1 n1] by simp
  have "map fst es1 \<noteq> []" using Cons by simp
  then have s2: "sorted (last (?t0 # map fst es1) # map fst es2)"
    using sorted_from_last[of "map fst es1" "map fst es2" ?t0] assms(1) by simp
  have n2: "\<forall>e \<in> set es2. \<not> names_last_online (snd e)" using assms(2) by simp
  show ?thesis
    unfolding run_lines_append
    using run_lines_monotone[OF inv1 s2 n2] by simp
qed


lemma startsWith_takeWhile: "startsWith (takeWhile P s) p \<Longrightarrow> startsWith s p"
proof -
  assume a: "startsWith (takeWhile P s) p"
  then have "length (take (length p) (takeWhile P s)) = length p"
    by (simp add: startsWith_def)
  then have len: "length p \<le> length (takeWhile P s)"
    by (simp add: min_def split: if_splits)
  have "take (length p) s = take (length p) (takeWhile P s @ dropWhile P s)" by simp
  also have "\<dots> = take (length p) (takeWhile P s)" using len by (simp del: takeWhile_dropWhile_id)
  finally show ?thesis using a by (simp add: startsWith_def)
qed

lemma device_key_startsWith: "device_key line = Some k \<Longrightarrow> startsWith line ''DEVICE:''"
  unfolding device_key_def Let_def
  by (auto simp: split_on_hd split: if_splits intro: startsWith_takeWhile)

lemma device_line_routes:
  assumes "device_key line = Some k"
  shows "deviceStates (handleSerialData f t line s) = deviceStates (parseDeviceData t line s)"
proof -
  have d: "startsWith line ''DEVICE:''" using assms by (rule device_key_startsWith)
  then have "\<not> startsWith line ''BUZZER:''" "\<not> startsWith line ''STATUS:''"
    by (auto simp: startsWith_def)
  then show ?thesis using d by (simp add: handleSerialData_def Let_def)
qed

lemma created_append: "created (a @ b) = created a @ created b"
  by (induction a rule: created.induct) auto

lemma send_attempts_append: "send_attempts (a @ b) = send_attempts a @ send_attempts b"
  by (induction a rule: send_attempts.induct) auto

lemma log_attempts_append: "log_attempts (a @ b) = log_attempts a @ log_attempts b"
  by (induction a rule: log_attempts.induct) auto

lemma publish_attempts_append: "publish_attempts (a @ b) = publish_attempts a @ publish_attempts b"
  by (induction a rule: publish_attempts.induct) auto

lemma log_rows_append: "log_rows (a @ b) = log_rows a @ log_rows b"
  by (simp add: log_rows_def log_attempts_append)

lemma published_append: "published (a @ b) = published a @ published b"
  by (simp add: published_def publish_attempts_append)

lemma added_append: "trace s' = trace s @ new \<Longrightarrow> added s s' = new"
  by (simp add: added_def)

lemma logActivity_run:
  "logActivity e a s = (outcome (log_err e (length (trace s)) a),
                         s\<lparr>trace := trace s @ [LogAppend a (log_err e (length (trace s)) a)]\<rparr>)"
  by (simp add: logActivity_def Let_def)

lemma emit_now_run:
  "emit_now e mk s =
     (outcome (emit_err e (length (trace s)) (mk (clock e (length (trace s))))),
      s\<lparr>trace := trace s @ [Publish (mk (clock e (length (trace s))))
                                  (emit_err e (length (trace s)) (mk (clock e (length (trace s)))))]\<rparr>)"
  by (simp add: emit_now_def emit_def Let_def)

lemma sink_pair_run:
  "and_then (logActivity e a) (\<lambda>_. emit_now e mk) s =
     (case log_err e (length (trace s)) a of
        Some err \<Rightarrow> (Inl err, s\<lparr>trace := trace s @ [LogAppend a (Some err)]\<rparr>)
      | None \<Rightarrow>
          (outcome (emit_err e (Suc (length (trace s))) (mk (clock e (Suc (length (trace s)))))),
           s\<lparr>trace := trace s @
               [LogAppend a None,
                Publish (mk (clock e (Suc (length (trace s)))))
                  (emit_err e (Suc (length (trace s))) (mk (clock e (Suc (length (trace s))))))]\<rparr>))"
  by (simp add: and_then_def logActivity_run emit_now_run outcome_def split: option.splits)

lemma client_send_run:
  "client_send e c a j s =
     (outcome (send_err e (length (trace s)) c a j),
      s\<lparr>trace := trace s @ [SendAttempt c a j (send_err e (length (trace s)) c a j)]\<rparr>)"
  by (simp add: client_send_def Let_def)

lemma get_client_cases:
  obtains (hit) c where "map_get (targetKey ip p) (clients s) = Some c"
                    and "get_client ip p s = (Inr c, s)"
        | (miss) "map_get (targetKey ip p) (clients s) = None"
             and "get_client ip p s =
                    (Inr (length (created (trace s))),
                     s\<lparr>clients := map_set (targetKey ip p) (length (created (trace s))) (clients s),
                       trace := trace s @ [ClientCreated (length (created (trace s))) ip p]\<rparr>)"
  by (cases "map_get (targetKey ip p) (clients s)") (auto simp: get_client_def Let_def)

lemma sendOSCMessage_after_client:
  assumes "get_client (ip_address m) (port m) s = (Inr c, s1)"
  shows "sendOSCMessage e m bd s =
     (case send_err e (length (trace s1)) c (command_address m) (parse_args e (command_args m)) of
        Some err \<Rightarrow>
          and_then (logActivity e (failed_activity m bd err))
            (\<lambda>_. emit_now e (failed_event m bd err))
            (s1\<lparr>trace := trace s1 @ [SendAttempt c (command_address m)
                                      (parse_args e (command_args m)) (Some err)]\<rparr>)
      | None \<Rightarrow>
          (case and_then (logActivity e (sent_activity m bd))
                  (\<lambda>_. emit_now e (sent_event m bd (parse_args e (command_args m))))
                  (s1\<lparr>trace := trace s1 @ [SendAttempt c (command_address m)
                                      (parse_args e (command_args m)) None]\<rparr>) of
             (Inl err, s3) \<Rightarrow>
               and_then (logActivity e (failed_activity m bd err))
                 (\<lambda>_. emit_now e (failed_event m bd err)) s3
           | (Inr x, s3) \<Rightarrow> (Inr x, s3)))"
  using assms
  by (simp add: sendOSCMessage_def try_catch_def and_then_def client_send_run outcome_def Let_def
        split: option.splits)

lemma sendOSCMessage_healthy_run:
  assumes "healthy_sinks e" and "get_client (ip_address m) (port m) s = (Inr c, s1)"
  shows "sendOSCMessage e m bd s =
     (Inr (), s1\<lparr>trace := trace s1 @
        [SendAttempt c (command_address m) (parse_args e (command_args m))
           (send_err e (length (trace s1)) c (command_address m) (parse_args e (command_args m))),
         LogAppend (outcome_activity m bd
           (send_err e (length (trace s1)) c (command_address m) (parse_args e (command_args m)))) None,
         Publish (outcome_event e m bd
           (send_err e (length (trace s1)) c (command_address m) (parse_args e (command_args m)))
           (clock e (length (trace s1) + 2))) None]\<rparr>)"
proof -
  have l: "log_err e n a = None" and p: "emit_err e n ev = None" for n a ev
    using assms(1) by (auto simp: healthy_sinks_def)
  show ?thesis
    unfolding sendOSCMessage_after_client[OF assms(2)] sink_pair_run
    by (cases "send_err e (length (trace s1)) c (command_address m) (parse_args e (command_args m))")
       (simp_all add: l p outcome_def outcome_activity_def outcome_event_def)
qed

lemma get_client_grows:
  assumes "get_client ip p s = (Inr c, s1)"
  shows "\<exists>pre. trace s1 = trace s @ pre \<and> send_attempts pre = [] \<and> log_attempts pre = []
               \<and> publish_attempts pre = []"
  using assms by (cases rule: get_client_cases[of ip p s]) auto

lemma sendOSCMessage_healthy:
  assumes "healthy_sinks e"
  shows "\<exists>new r. fst (sendOSCMessage e m bd s) = Inr ()
         \<and> trace (snd (sendOSCMessage e m bd s)) = trace s @ new
         \<and> map (\<lambda>x. fst (snd x)) (send_attempts new) = [command_address m]
         \<and> send_results new = [r]
         \<and> log_rows new = [outcome_activity m bd r]
         \<and> map ev_success (published new) = [r = None]
         \<and> map ev_target_name (published new) = [Some (target_name m)]"
proof -
  obtain c s1 where g: "get_client (ip_address m) (port m) s = (Inr c, s1)"
    by (cases rule: get_client_cases[of "ip_address m" "port m" s]) auto
  obtain pre where pre: "trace s1 = trace s @ pre" "send_attempts pre = []"
      "log_attempts pre = []" "publish_attempts pre = []"
    using get_client_grows[OF g] by auto
  let ?r = "send_err e (length (trace s1)) c (command_address m) (parse_args e (command_args m))"
  show ?thesis
    apply (rule exI[of _ "pre @ [SendAttempt c (command_address m) (parse_args e (command_args m)) ?r,
         LogAppend (outcome_activity m bd ?r) None,
         Publish (outcome_event e m bd ?r (clock e (length (trace s1) + 2))) None]"])
    apply (rule exI[of _ ?r])
    unfolding sendOSCMessage_healthy_run[OF assms g]
    using pre
    by (cases ?r)
       (simp_all add: send_attempts_append log_rows_def published_def send_results_def
          log_attempts_append publish_attempts_append outcome_event_def sent_event_def
          failed_event_def)
qed

lemma send_results_append: "send_results (a @ b) = send_results a @ send_results b"
  by (simp add: send_results_def send_attempts_append)

lemma send_all_healthy:
  assumes "healthy_sinks e"
  shows "\<exists>new. fst (send_all e ms bd s) = Inr ()
         \<and> trace (snd (send_all e ms bd s)) = trace s @ new
         \<and> map (\<lambda>x. fst (snd x)) (send_attempts new) = map command_address ms
         \<and> length (send_results new) = length ms
         \<and> log_rows new = map (\<lambda>(m, r). outcome_activity m bd r) (zip ms (send_results new))
         \<and> map ev_success (published new) = map (\<lambda>r. r = None) (send_results new)
         \<and> map ev_target_name (published new) = map (\<lambda>m. Some (target_name m)) ms"
proof (induction ms arbitrary: s)
  case Nil
  show ?case
    by (rule exI[of _ "[]"]) (simp add: resolve_def log_rows_def published_def send_results_def)
next
  case (Cons m ms)
  let ?s1 = "snd (sendOSCMessage e m bd s)"
  obtain new1 r where h1: "fst (sendOSCMessage e m bd s) = Inr ()"
      "trace ?s1 = trace s @ new1"
      "map (\<lambda>x. fst (snd x)) (send_attempts new1) = [command_address m]"
      "send_results new1 = [r]"
      "log_rows new1 = [outcome_activity m bd r]"
      "map ev_success (published new1) = [r = None]"
      "map ev_target_name (published new1) = [Some (target_name m)]"
    using sendOSCMessage_healthy[OF assms, of m bd s] by (elim exE conjE) (rule that; assumption)
  obtain new2 where h2: "fst (send_all e ms bd ?s1) = Inr ()"
      "trace (snd (send_all e ms bd ?s1)) = trace ?s1 @ new2"
      "map (\<lambda>x. fst (snd x)) (send_attempts new2) = map command_address ms"
      "length (send_results new2) = length ms"
      "log_rows new2 = map (\<lambda>(m, r). outcome_activity m bd r) (zip ms (send_results new2))"
      "map ev_success (published new2) = map (\<lambda>r. r = None) (send_results new2)"
      "map ev_target_name (published new2) = map (\<lambda>m. Some (target_name m)) ms"
    using Cons.IH[of ?s1] by (elim exE conjE) (rule that; assumption)
  have step: "send_all e (m # ms) bd s = send_all e ms bd ?s1"
    using h1(1) by (cases "sendOSCMessage e m bd s") (simp add: and_then_def)
  show ?case
    apply (rule exI[of _ "new1 @ new2"])
    unfolding step
    using h1 h2
    by (simp add: send_attempts_append send_results_append log_rows_append published_append)
qed

lemmas osc_eval = processBuzzerPress_def sendOSCMessage_def try_catch_def and_then_def
  resolve_def throw_def db_getMappingsForBuzzer_def get_client_def client_send_def
  logActivity_def emit_now_def emit_def outcome_def Let_def added_def targetKey_def
  show_int_def digits_of.simps parse_args_def parse_or_empty_def or_empty_array_def
  log_rows_def published_def send_results_def

lemma sink_pair_quiet:
  "\<exists>tail. snd (and_then (logActivity e a) (\<lambda>_. emit_now e mk) s) = s\<lparr>trace := trace s @ tail\<rparr>
          \<and> send_attempts tail = [] \<and> created tail = []"
  unfolding sink_pair_run
  by (cases "log_err e (length (trace s)) a") auto

lemma test_handler_quiet:
  "\<exists>tail. snd (and_then (logActivity e a) (\<lambda>_. and_then (emit_now e mk) (\<lambda>_. throw err)) s)
            = s\<lparr>trace := trace s @ tail\<rparr>
          \<and> send_attempts tail = [] \<and> created tail = []"
  by (cases "log_err e (length (trace s)) a";
      cases "emit_err e (Suc (length (trace s))) (mk (clock e (Suc (length (trace s)))))")
     (auto simp: and_then_def logActivity_run emit_now_run throw_def outcome_def)

lemma pooled_body:
  fixes h :: "string \<Rightarrow> unit io" and e :: env and ip :: string and p :: int
    and a :: string and j :: json and act :: activity and mk :: "int \<Rightarrow> osc_event"
  assumes hq: "\<And>err s0. \<exists>tail. snd (h err s0) = s0\<lparr>trace := trace s0 @ tail\<rparr>
                 \<and> send_attempts tail = [] \<and> created tail = []"
  defines "run \<equiv> try_catch (and_then (get_client ip p) (\<lambda>c.
                   and_then (client_send e c a j) (\<lambda>_.
                   and_then (logActivity e act) (\<lambda>_. emit_now e mk)))) h"
  shows "\<exists>c r tail.
     trace (snd (run s))
       = trace s @ (if map_get (targetKey ip p) (clients s) = None
                    then [ClientCreated c ip p] else [])
           @ SendAttempt c a j r # tail
     \<and> send_attempts tail = [] \<and> created tail = []
     \<and> c = (case map_get (targetKey ip p) (clients s) of
               Some c' \<Rightarrow> c' | None \<Rightarrow> length (created (trace s)))
     \<and> clients (snd (run s))
         = (if map_get (targetKey ip p) (clients s) = None
            then map_set (targetKey ip p) c (clients s) else clients s)"
proof -
  have after: "run s =
     (case send_err e (length (trace s1)) c a j of
        Some err \<Rightarrow> h err (s1\<lparr>trace := trace s1 @ [SendAttempt c a j (Some err)]\<rparr>)
      | None \<Rightarrow>
          (case and_then (logActivity e act) (\<lambda>_. emit_now e mk)
                  (s1\<lparr>trace := trace s1 @ [SendAttempt c a j None]\<rparr>) of
             (Inl err, s3) \<Rightarrow> h err s3
           | (Inr x, s3) \<Rightarrow> (Inr x, s3)))"
    if "get_client ip p s = (Inr c, s1)" for c s1
    using that
    by (simp add: run_def try_catch_def and_then_def client_send_run outcome_def
          split: option.splits)
  have body: "\<exists>r tail. trace (snd (run s)) = trace s1 @ SendAttempt c a j r # tail
                \<and> send_attempts tail = [] \<and> created tail = []
                \<and> clients (snd (run s)) = clients s1"
    if g: "get_client ip p s = (Inr c, s1)" for c s1
  proof (cases "send_err e (length (trace s1)) c a j")
    case (Some err)
    let ?s2 = "s1\<lparr>trace := trace s1 @ [SendAttempt c a j (Some err)]\<rparr>"
    obtain t2 where "snd (h err ?s2) = ?s2\<lparr>trace := trace ?s2 @ t2\<rparr>"
        "send_attempts t2 = []" "created t2 = []"
      using hq by blast
    then show ?thesis
      unfolding after[OF g] using Some by auto
  next
    case None
    let ?s2 = "s1\<lparr>trace := trace s1 @ [SendAttempt c a j None]\<rparr>"
    let ?p1 = "and_then (logActivity e act) (\<lambda>_. emit_now e mk) ?s2"
    obtain t1 where t1: "snd ?p1 = ?s2\<lparr>trace := trace ?s2 @ t1\<rparr>"
        "send_attempts t1 = []" "created t1 = []"
      using sink_pair_quiet by blast
    show ?thesis
    proof (cases "fst ?p1")
      case (Inr x)
      then have "?p1 = (Inr x, ?s2\<lparr>trace := trace ?s2 @ t1\<rparr>)"
        using t1(1) by (metis prod.collapse)
      then show ?thesis
        unfolding after[OF g] using None t1 by auto
    next
      case (Inl err)
      let ?s3 = "?s2\<lparr>trace := trace ?s2 @ t1\<rparr>"
      have p1: "?p1 = (Inl err, ?s3)"
        using Inl t1(1) by (metis prod.collapse)
      obtain t2 where t2: "snd (h err ?s3) = ?s3\<lparr>trace := trace ?s3 @ t2\<rparr>"
        "send_attempts t2 = []" "created t2 = []"
        using hq by blast
      show ?thesis
        unfolding after[OF g] using None p1 t1 t2
        by (auto simp: send_attempts_append created_append)
    qed
  qed
  show ?thesis
  proof (cases rule: get_client_cases[of ip p s])
    case (hit c)
    from body[OF hit(2)] show ?thesis using hit(1) by auto
  next
    case miss
    from body[OF miss(2)] show ?thesis using miss(1) by auto
  qed
qed

lemma request_summary:
  assumes "reads_succeed e" and "request_target (db e) r = Some (ip, p)"
  shows "(\<exists>new. trace (snd (run_request e r s)) = trace s @ new)
       \<and> created (added s (snd (run_request e r s)))
           = (if map_get (targetKey ip p) (clients s) = None
              then [(pool_client ip p s, ip, p)] else [])
       \<and> map fst (send_attempts (added s (snd (run_request e r s)))) = [pool_client ip p s]
       \<and> map_get (targetKey ip p) (clients (snd (run_request e r s))) = Some (pool_client ip p s)
       \<and> clients (snd (run_request e r s))
           = (if map_get (targetKey ip p) (clients s) = None
              then map_set (targetKey ip p) (pool_client ip p s) (clients s) else clients s)"
proof (cases r)
  case (Dispatch m bd)
  then have t: "ip_address m = ip" "port m = p" using assms(2) by auto
  have run: "run_request e r = try_catch (and_then (get_client ip p) (\<lambda>c.
                   and_then (client_send e c (command_address m) (parse_args e (command_args m))) (\<lambda>_.
                   and_then (logActivity e (sent_activity m bd))
                     (\<lambda>_. emit_now e (sent_event m bd (parse_args e (command_args m)))))))
               (\<lambda>err. and_then (logActivity e (failed_activity m bd err))
                         (\<lambda>_. emit_now e (failed_event m bd err)))"
    using Dispatch t by (simp add: sendOSCMessage_def Let_def)
  show ?thesis
    unfolding run
    using pooled_body[where h = "\<lambda>err. and_then (logActivity e (failed_activity m bd err))
                         (\<lambda>_. emit_now e (failed_event m bd err))"
            and e = e and ip = ip and p = p and a = "command_address m"
            and j = "parse_args e (command_args m)" and act = "sent_activity m bd"
            and mk = "sent_event m bd (parse_args e (command_args m))" and s = s,
            OF sink_pair_quiet]
    by (auto simp: added_def pool_client_def send_attempts_append created_append
          map_get_map_set split: option.splits)
next
  case (Test td)
  obtain command target where f: "find_command (db e) (commandId td) = Some command"
      "find_target (db e) (targetId td) = Some target"
      "ot_ip_address target = ip" "ot_port target = p"
    using assms(2) Test by (auto split: option.splits)
  let ?s0 = "s\<lparr>trace := trace s @ [GetRow ''osc_commands'' (commandId td) None,
                                     GetRow ''osc_targets'' (targetId td) None]\<rparr>"
  let ?run = "try_catch (and_then (get_client ip p) (\<lambda>c.
                   and_then (client_send e c (oc_address command) (test_args e td command)) (\<lambda>_.
                   and_then (logActivity e (test_sent_activity command target))
                     (\<lambda>_. emit_now e (test_sent_event command target (test_args e td command))))))
               (\<lambda>err. and_then (logActivity e (test_failed_activity td err))
                         (\<lambda>_. and_then (emit_now e (test_failed_event err)) (\<lambda>_. throw err)))"
  have g: "get_err e n table i = None" for n table i
    using assms(1) by (simp add: reads_succeed_def)
  have run: "run_request e r s = ?run ?s0"
    using Test f
    by (simp add: sendTestCommand_def try_catch_def and_then_def db_get_def g Let_def)
  show ?thesis
    unfolding run
    using pooled_body[where h = "\<lambda>err. and_then (logActivity e (test_failed_activity td err))
                         (\<lambda>_. and_then (emit_now e (test_failed_event err)) (\<lambda>_. throw err))"
            and e = e and ip = ip and p = p and a = "oc_address command"
            and j = "test_args e td command" and act = "test_sent_activity command target"
            and mk = "test_sent_event command target (test_args e td command)" and s = ?s0,
            OF test_handler_quiet]
    by (auto simp: added_def pool_client_def send_attempts_append created_append
          map_get_map_set split: option.splits)
qed

lemma added_trans:
  "trace s1 = trace s @ a \<Longrightarrow> trace s2 = trace s1 @ b \<Longrightarrow>
   added s s2 = added s s1 @ added s1 s2"
  by (simp add: added_def)

lemma digit_char_inj:
  "i < 10 \<Longrightarrow> j < 10 \<Longrightarrow> ''0123456789'' ! i = ''0123456789'' ! j \<Longrightarrow> i = j"
proof -
  assume a: "i < 10" "j < 10" "''0123456789'' ! i = ''0123456789'' ! j"
  have d: "distinct ''0123456789''" by simp
  have l: "length ''0123456789'' = 10" by simp
  show ?thesis using nth_eq_iff_index_eq[OF d, of i j] a l by simp
qed

lemma digit_char_is_digit: "i < 10 \<Longrightarrow> is_digit (''0123456789'' ! i)"
proof -
  assume "i < 10"
  then have "i < length ''0123456789''" by simp
  then have "''0123456789'' ! i \<in> set ''0123456789''" by (rule nth_mem)
  then show ?thesis by (simp only: is_digit_def)
qed

lemma digits_of_digits: "list_all is_digit (digits_of n)"
proof (induction n rule: digits_of.induct)
  case (1 n)
  show ?case
  proof (cases "n < 10")
    case True
    then show ?thesis by (subst digits_of.simps) (simp add: digit_char_is_digit)
  next
    case False
    have "n mod 10 < 10" by simp
    then have "is_digit (''0123456789'' ! (n mod 10))" by (rule digit_char_is_digit)
    then show ?thesis using False 1 by (subst digits_of.simps) simp
  qed
qed

lemma digits_of_nonempty: "digits_of n \<noteq> []"
  by (subst digits_of.simps) simp

lemma digits_of_length: "10 \<le> n \<Longrightarrow> 2 \<le> length (digits_of n)"
proof -
  assume a: "10 \<le> n"
  have "digits_of n = digits_of (n div 10) @ [''0123456789'' ! (n mod 10)]"
    using a by (subst digits_of.simps) simp
  moreover have "1 \<le> length (digits_of (n div 10))"
    using digits_of_nonempty[of "n div 10"] by (cases "digits_of (n div 10)") auto
  ultimately show ?thesis by simp
qed

lemma digits_of_inj: "digits_of n = digits_of k \<Longrightarrow> n = k"
proof (induction n arbitrary: k rule: digits_of.induct)
  case (1 n)
  show ?case
  proof (cases "n < 10")
    case True
    then have dn: "digits_of n = [''0123456789'' ! n]" by (subst digits_of.simps) simp
    show ?thesis
    proof (cases "k < 10")
      case k: True
      then have "digits_of k = [''0123456789'' ! k]" by (subst digits_of.simps) simp
      then show ?thesis using dn 1(2) True k digit_char_inj by simp
    next
      case False
      then have "2 \<le> length (digits_of k)" by (intro digits_of_length) simp
      then show ?thesis using dn 1(2) by simp
    qed
  next
    case False
    then have dn: "digits_of n = digits_of (n div 10) @ [''0123456789'' ! (n mod 10)]"
      by (subst digits_of.simps) simp
    show ?thesis
    proof (cases "k < 10")
      case True
      then have "digits_of k = [''0123456789'' ! k]" by (subst digits_of.simps) simp
      moreover have "2 \<le> length (digits_of n)" using False by (intro digits_of_length) simp
      ultimately show ?thesis using 1(2) by simp
    next
      case k: False
      then have dk: "digits_of k = digits_of (k div 10) @ [''0123456789'' ! (k mod 10)]"
        by (subst digits_of.simps) simp
      have eq: "digits_of (n div 10) = digits_of (k div 10)"
         "''0123456789'' ! (n mod 10) = ''0123456789'' ! (k mod 10)"
        using 1(2) unfolding dn dk by simp_all
      have "n div 10 = k div 10" using 1(1)[OF False eq(1)] .
      moreover have "n mod 10 = k mod 10"
        using digit_char_inj[OF _ _ eq(2)] by simp
      ultimately have "10 * (n div 10) + n mod 10 = 10 * (k div 10) + k mod 10" by simp
      then show ?thesis by simp
    qed
  qed
qed

lemma digits_of_no_sign: "CHR ''-'' \<notin> set (digits_of n)" "CHR '':'' \<notin> set (digits_of n)"
proof -
  have all: "\<forall>c \<in> set (digits_of n). is_digit c"
    using digits_of_digits[of n] by (simp add: list_all_iff)
  have no: "\<not> is_digit CHR ''-''" "\<not> is_digit CHR '':''"
    by (simp_all add: is_digit_def)
  show "CHR ''-'' \<notin> set (digits_of n)" using all no(1) by blast
  show "CHR '':'' \<notin> set (digits_of n)" using all no(2) by blast
qed

lemma show_int_inj: "show_int i = show_int j \<Longrightarrow> i = j"
proof -
  assume a: "show_int i = show_int j"
  have hd_no: "hd (digits_of n) \<noteq> CHR ''-''" for n
    using digits_of_no_sign(1)[of n] digits_of_nonempty[of n] by (cases "digits_of n") auto
  show ?thesis
  proof (cases "i < 0")
    case True
    show ?thesis
    proof (cases "j < 0")
      case j: True
      then have "digits_of (nat (- i)) = digits_of (nat (- j))"
        using a True by (simp add: show_int_def)
      then have "nat (- i) = nat (- j)" by (rule digits_of_inj)
      then show ?thesis using True j by simp
    next
      case False
      then have "CHR ''-'' # digits_of (nat (- i)) = digits_of (nat j)"
        using a True by (simp add: show_int_def)
      then have "hd (digits_of (nat j)) = CHR ''-''" by (metis list.sel(1))
      then show ?thesis using hd_no by simp
    qed
  next
    case False
    show ?thesis
    proof (cases "j < 0")
      case True
      then have "digits_of (nat i) = CHR ''-'' # digits_of (nat (- j))"
        using a False by (simp add: show_int_def)
      then have "hd (digits_of (nat i)) = CHR ''-''" by (metis list.sel(1))
      then show ?thesis using hd_no by simp
    next
      case j: False
      then have "digits_of (nat i) = digits_of (nat j)"
        using a False by (simp add: show_int_def)
      then have "nat i = nat j" by (rule digits_of_inj)
      then show ?thesis using False j by simp
    qed
  qed
qed

lemma show_int_no_colon: "CHR '':'' \<notin> set (show_int i)"
  using digits_of_no_sign(2) by (simp add: show_int_def)

lemma last_sep_unique:
  assumes "a @ sep # b = c @ sep # d" and "sep \<notin> set b" and "sep \<notin> set d"
  shows "a = c \<and> b = d"
proof -
  have tw: "takeWhile (\<lambda>x. x \<noteq> sep) (rev (u @ sep # v)) = rev v" if "sep \<notin> set v" for u v
  proof -
    have "takeWhile (\<lambda>x. x \<noteq> sep) (rev v @ sep # rev u) = takeWhile (\<lambda>x. x \<noteq> sep) (rev v)"
      by (simp add: takeWhile_tail)
    also have "\<dots> = rev v" using that by (auto simp: takeWhile_eq_all_conv)
    finally show ?thesis by simp
  qed
  have tb: "takeWhile (\<lambda>x. x \<noteq> sep) (rev (a @ sep # b)) = rev b"
    using assms(2) by (rule tw)
  have td: "takeWhile (\<lambda>x. x \<noteq> sep) (rev (c @ sep # d)) = rev d"
    using assms(3) by (rule tw)
  have "rev b = rev d" using tb td assms(1) by simp
  then have "b = d" by simp
  then show ?thesis using assms(1) by simp
qed

lemma targetKey_inj: "(targetKey ip1 p1 = targetKey ip2 p2) = (ip1 = ip2 \<and> p1 = p2)"
proof
  assume "targetKey ip1 p1 = targetKey ip2 p2"
  then have eq: "ip1 @ CHR '':'' # show_int p1 = ip2 @ CHR '':'' # show_int p2"
    by (simp add: targetKey_def)
  have "ip1 = ip2 \<and> show_int p1 = show_int p2"
    using eq show_int_no_colon show_int_no_colon by (rule last_sep_unique)
  then show "ip1 = ip2 \<and> p1 = p2" using show_int_inj by auto
next
  assume "ip1 = ip2 \<and> p1 = p2"
  then show "targetKey ip1 p1 = targetKey ip2 p2" by simp
qed

lemma map_get_mem: "map_get k m = Some c \<Longrightarrow> (k, c) \<in> set m"
  by (induction m) (auto split: if_splits)

lemma map_set_fresh: "map_get k m = None \<Longrightarrow> map_set k v m = m @ [(k, v)]"
  by (induction m) (auto split: if_splits)

lemma pool_values_distinct:
  assumes "pool_wf s" and "map_get k1 (clients s) = Some c" and "map_get k2 (clients s) = Some c"
  shows "k1 = k2"
proof -
  have i: "inj_on snd (set (clients s))"
    using assms(1) by (simp add: pool_wf_def distinct_map)
  have "(k1, c) \<in> set (clients s)" "(k2, c) \<in> set (clients s)"
    using assms(2,3) by (auto dest: map_get_mem)
  then show ?thesis using inj_onD[OF i, of "(k1, c)" "(k2, c)"] by simp
qed

lemma pool_values_old:
  assumes "pool_wf s" and "map_get k (clients s) = Some c"
  shows "c < length (created (trace s))"
proof -
  have "c \<in> set (map snd (clients s))"
    using map_get_mem[OF assms(2)] by force
  then show ?thesis using assms(1) by (auto simp: pool_wf_def list_all_iff)
qed

lemma pool_client_key:
  assumes "pool_wf s" and "map_get k (clients s) = Some c"
  shows "(pool_client ip p s = c) = (targetKey ip p = k)"
proof (cases "map_get (targetKey ip p) (clients s)")
  case None
  then have "pool_client ip p s = length (created (trace s))" by (simp add: pool_client_def)
  moreover have "c < length (created (trace s))" using assms by (rule pool_values_old)
  moreover have "targetKey ip p \<noteq> k" using None assms(2) by auto
  ultimately show ?thesis by simp
next
  case (Some c')
  then have pc: "pool_client ip p s = c'" by (simp add: pool_client_def)
  show ?thesis
  proof
    assume "pool_client ip p s = c"
    then have "map_get (targetKey ip p) (clients s) = Some c" using Some pc by simp
    then show "targetKey ip p = k" using assms pool_values_distinct by blast
  next
    assume "targetKey ip p = k"
    then show "pool_client ip p s = c" using Some pc assms(2) by simp
  qed
qed

lemma pool_wf_step:
  assumes "pool_wf s" and "trace s' = trace s @ new"
      and "created new = (if map_get k (clients s) = None then [(length (created (trace s)), ip, p)] else [])"
      and "clients s' = (if map_get k (clients s) = None
                         then map_set k (length (created (trace s))) (clients s) else clients s)"
  shows "pool_wf s'"
proof (cases "map_get k (clients s)")
  case None
  let ?n = "length (created (trace s))"
  have d: "distinct (map snd (clients s))"
    and old: "\<forall>c \<in> set (map snd (clients s)). c < ?n"
    using assms(1) by (simp_all add: pool_wf_def list_all_iff)
  have fresh: "?n \<notin> set (map snd (clients s))" using old by blast
  have cl: "map snd (clients s') = map snd (clients s) @ [?n]"
    using assms(4) None by (simp add: map_set_fresh)
  have len: "length (created (trace s')) = Suc ?n"
    using assms(2,3) None by (simp add: created_append)
  have "distinct (map snd (clients s'))" unfolding cl using d fresh by simp
  moreover have "\<forall>c \<in> set (map snd (clients s')). c < length (created (trace s'))"
    unfolding cl len using old by (simp add: less_Suc_eq)
  ultimately show ?thesis by (simp add: pool_wf_def list_all_iff)
next
  case (Some c)
  have cl: "clients s' = clients s" using assms(4) Some by simp
  have len: "length (created (trace s')) = length (created (trace s))"
    using assms(2,3) Some by (simp add: created_append)
  show ?thesis using assms(1) by (simp add: pool_wf_def cl len)
qed

lemma pool_wf_init: "pool_wf osc_init"
  by (simp add: pool_wf_def osc_init_def)

lemma round_cases:
  obtains (rejected) err where
      "and_then (logActivity e a) (\<lambda>_. emit_now e mk) s
         = (Inl err, s\<lparr>trace := trace s @ [LogAppend a (Some err)]\<rparr>)"
  | (published) t where
      "and_then (logActivity e a) (\<lambda>_. emit_now e mk) s
         = (Inr (), s\<lparr>trace := trace s @ [LogAppend a None, Publish (mk t) None]\<rparr>)"
  | (unheard) t err where
      "and_then (logActivity e a) (\<lambda>_. emit_now e mk) s
         = (Inl err, s\<lparr>trace := trace s @ [LogAppend a None, Publish (mk t) (Some err)]\<rparr>)"
proof (cases "log_err e (length (trace s)) a")
  case (Some err)
  then show ?thesis using rejected[of err] by (simp add: sink_pair_run)
next
  case None
  note l = None
  show ?thesis
  proof (cases "emit_err e (Suc (length (trace s))) (mk (clock e (Suc (length (trace s)))))")
    case None
    then show ?thesis
      using published[where t = "clock e (Suc (length (trace s)))"] l
      by (simp add: sink_pair_run outcome_def)
  next
    case (Some err)
    then show ?thesis
      using unheard[where t = "clock e (Suc (length (trace s)))" and err = err] l
      by (simp add: sink_pair_run outcome_def)
  qed
qed

lemma failure_round_fine:
  obtains res tail where
    "and_then (logActivity e (failed_activity m bd err))
        (\<lambda>_. emit_now e (failed_event m bd err)) s = (res, s\<lparr>trace := trace s @ tail\<rparr>)"
    "sinks_fine e m bd (Some err) res tail"
proof (cases rule: round_cases[of e "failed_activity m bd err" "failed_event m bd err" s])
  case (rejected err')
  show ?thesis
    by (rule that[OF rejected])
       (simp add: sinks_fine_def outcome_activity_def)
next
  case (published t)
  show ?thesis
    by (rule that[OF published])
       (simp add: sinks_fine_def outcome_activity_def outcome_event_def failed_event_def
          failed_activity_def)
next
  case (unheard t err')
  show ?thesis
    by (rule that[OF unheard])
       (simp add: sinks_fine_def outcome_activity_def outcome_event_def failed_event_def
          failed_activity_def)
qed

lemma sinks_fine_after_rejection:
  "sinks_fine e m bd (Some err) res tail \<Longrightarrow>
   sinks_fine e m bd None res (LogAppend (sent_activity m bd) (Some err) # tail)"
  by (cases tail) (auto simp: sinks_fine_def outcome_activity_def)

lemma sinks_fine_after_unheard:
  "sinks_fine e m bd (Some err) res tail \<Longrightarrow>
   sinks_fine e m bd None res
     (LogAppend (sent_activity m bd) None
        # Publish (sent_event m bd (parse_args e (command_args m)) t) (Some err) # tail)"
  by (cases tail)
     (auto simp: sinks_fine_def outcome_activity_def outcome_event_def sent_event_def
        sent_activity_def)

lemma sendOSCMessage_sinks:
  assumes g: "get_client (ip_address m) (port m) s = (Inr c, s1)"
  obtains r res sinks where
    "sendOSCMessage e m bd s
       = (res, s1\<lparr>trace := trace s1 @ SendAttempt c (command_address m)
                                        (parse_args e (command_args m)) r # sinks\<rparr>)"
    "sinks_fine e m bd r res sinks"
proof (cases "send_err e (length (trace s1)) c (command_address m) (parse_args e (command_args m))")
  case (Some err)
  let ?s2 = "s1\<lparr>trace := trace s1 @ [SendAttempt c (command_address m)
                                      (parse_args e (command_args m)) (Some err)]\<rparr>"
  obtain res tail where t: "and_then (logActivity e (failed_activity m bd err))
             (\<lambda>_. emit_now e (failed_event m bd err)) ?s2 = (res, ?s2\<lparr>trace := trace ?s2 @ tail\<rparr>)"
      "sinks_fine e m bd (Some err) res tail"
    by (rule failure_round_fine[of e m bd err ?s2])
  have run: "sendOSCMessage e m bd s
               = (res, s1\<lparr>trace := trace s1 @ SendAttempt c (command_address m)
                                        (parse_args e (command_args m)) (Some err) # tail\<rparr>)"
    unfolding sendOSCMessage_after_client[OF g] using Some t(1) by simp
  show ?thesis by (rule that[OF run t(2)])
next
  case None
  let ?s2 = "s1\<lparr>trace := trace s1 @ [SendAttempt c (command_address m)
                                      (parse_args e (command_args m)) None]\<rparr>"
  let ?args = "parse_args e (command_args m)"
  note ac = sendOSCMessage_after_client[OF g, of e bd]
  show ?thesis
  proof (cases rule: round_cases[of e "sent_activity m bd" "sent_event m bd ?args" ?s2])
    case (published t)
    have run: "sendOSCMessage e m bd s
       = (Inr (), s1\<lparr>trace := trace s1 @ SendAttempt c (command_address m) ?args None
             # [LogAppend (sent_activity m bd) None, Publish (sent_event m bd ?args t) None]\<rparr>)"
      unfolding ac using None published by simp
    show ?thesis
      by (rule that[OF run])
         (simp add: sinks_fine_def outcome_activity_def outcome_event_def sent_event_def
            sent_activity_def)
  next
    case (rejected err)
    let ?s3 = "?s2\<lparr>trace := trace ?s2 @ [LogAppend (sent_activity m bd) (Some err)]\<rparr>"
    obtain res tail where t: "and_then (logActivity e (failed_activity m bd err))
             (\<lambda>_. emit_now e (failed_event m bd err)) ?s3 = (res, ?s3\<lparr>trace := trace ?s3 @ tail\<rparr>)"
        "sinks_fine e m bd (Some err) res tail"
      by (rule failure_round_fine[of e m bd err ?s3])
    have run: "sendOSCMessage e m bd s
       = (res, s1\<lparr>trace := trace s1 @ SendAttempt c (command_address m) ?args None
                        # LogAppend (sent_activity m bd) (Some err) # tail\<rparr>)"
      unfolding ac using None rejected t(1) by simp
    show ?thesis
      by (rule that[OF run sinks_fine_after_rejection[OF t(2)]])
  next
    case (unheard t err)
    let ?s3 = "?s2\<lparr>trace := trace ?s2 @ [LogAppend (sent_activity m bd) None,
                                            Publish (sent_event m bd ?args t) (Some err)]\<rparr>"
    obtain res tail where t: "and_then (logActivity e (failed_activity m bd err))
             (\<lambda>_. emit_now e (failed_event m bd err)) ?s3 = (res, ?s3\<lparr>trace := trace ?s3 @ tail\<rparr>)"
        "sinks_fine e m bd (Some err) res tail"
      by (rule failure_round_fine[of e m bd err ?s3])
    have run: "sendOSCMessage e m bd s
       = (res, s1\<lparr>trace := trace s1 @ SendAttempt c (command_address m) ?args None
                        # LogAppend (sent_activity m bd) None
                        # Publish (sent_event m bd ?args t) (Some err) # tail\<rparr>)"
      unfolding ac using None unheard t(1) by simp
    show ?thesis
      by (rule that[OF run sinks_fine_after_unheard[OF t(2)]])
  qed
qed

section \<open>The parser on the reference press line\<close>

text \<open>
  C7. Feeding the line \<open>BUZZER:AA:BB:CC:DD:EE:FF,1700000000000\<close> to the parser emits
  exactly one press event, whose identifier is \<open>AA:BB:CC:DD:EE:FF\<close> and whose time
  stamp is the number 1700000000000.
\<close>

theorem buzzer_line_roundtrip:
  "emitted (handleSerialData str_is_nan now ''BUZZER:AA:BB:CC:DD:EE:FF,1700000000000'' s)
     = emitted s @ [BuzzerPress ''AA:BB:CC:DD:EE:FF'' (JNum 1700000000000) now]"
  by (simp add: handleSerialData_def startsWith_def handleBuzzerPress_def Let_def
        parse_eval split: option.splits)

section \<open>Press lines with a malformed time stamp\<close>

text \<open>
  C8, as the claim states it, fails: on the line \<open>BUZZER:AA:BB:CC:DD:EE:FF,abc\<close> the
  press event is produced, but its time stamp is \<open>NaN\<close> (what \<open>parseInt\<close> returns), not
  \<open>null\<close>.
\<close>

theorem malformed_timestamp_not_null:
  "emitted (handleSerialData keep_text 5 ''BUZZER:AA:BB:CC:DD:EE:FF,abc'' esp_init)
     = [BuzzerPress ''AA:BB:CC:DD:EE:FF'' JNaN 5] \<and> JNaN \<noteq> JNull"
  by (simp add: handleSerialData_def startsWith_def handleBuzzerPress_def Let_def
        parse_eval esp_init_def)

text \<open>
  C8, amended. For every line \<open>BUZZER:<id>,<ts>\<close> (neither part containing a comma) whose
  \<open><ts>\<close> has no leading integer, the parser still emits exactly one press event for
  \<open><id>\<close>, and the time stamp of that event is \<open>NaN\<close>.
\<close>

theorem malformed_timestamp_is_nan:
  assumes "CHR '','' \<notin> set ident" and "CHR '','' \<notin> set ts" and "no_leading_integer ts"
  shows "emitted (handleSerialData str_is_nan now (''BUZZER:'' @ ident @ '','' @ ts) s)
           = emitted s @ [BuzzerPress ident JNaN now]"
proof -
  have sw: "startsWith (''BUZZER:'' @ ident @ '','' @ ts) ''BUZZER:''"
    by (rule startsWith_append)
  have fs: "split_on CHR '','' (drop 7 (''BUZZER:'' @ ident @ '','' @ ts)) = [ident, ts]"
    using assms(1,2) by (rule buzzer_fields)
  show ?thesis
    unfolding handleSerialData_def
    by (simp only: sw fs if_True Let_def)
       (simp add: parseInt_no_leading_integer[OF assms(3)] handleBuzzerPress_def Let_def
          split: option.splits)
qed

theorem malformed_timestamp_is_nan_witness:
  "emitted (handleSerialData keep_text 5 ''BUZZER:AA:BB,soon'' esp_init)
     = [BuzzerPress ''AA:BB'' JNaN 5]"
  using malformed_timestamp_is_nan[of "''AA:BB''" "''soon''" keep_text 5 esp_init]
  by (simp add: no_leading_integer_def ws_length_def white_space_def startsWith_def
        is_digit_def esp_init_def)

section \<open>The snapshot classifies devices when it is read\<close>

text \<open>
  C5. For the entry at any position of the store whose stored \<open>online\<close> flag is \<open>true\<close> and
  whose \<open>last_seen\<close> is the time \<open>t\<close>, the snapshot taken at \<open>now\<close> reports the device
  online exactly when \<open>now - t\<close> is below the 60000 ms threshold, and offline otherwise
  (so a stale device is reported offline although its stored flag says online); taking the
  snapshot returns the service state unchanged.
\<close>

theorem snapshot_staleness:
  assumes "i < length (deviceStates s)"
      and "deviceStates s ! i = (mac, st)"
      and "get_prop ''online'' st = JBool True"
      and "get_prop ''last_seen'' st = JNum t"
  shows "length (fst (getDevices str_num now s)) = length (deviceStates s)
       \<and> v_mac_address (fst (getDevices str_num now s) ! i) = mac
       \<and> v_online (fst (getDevices str_num now s) ! i) = (now - t < 60000)
       \<and> v_status (fst (getDevices str_num now s) ! i)
            = (if now - t < 60000 then ''online'' else ''offline'')
       \<and> snd (getDevices str_num now s) = s"
  using assms
  by (simp add: getDevices_def device_view_of_def Let_def js_or_def js_minus_def
        staleThreshold_def round_to_double_less)

theorem snapshot_staleness_witness:
  "v_online (fst (getDevices no_number 70000 demo_store) ! 0) = False
   \<and> v_online (fst (getDevices no_number 70000 demo_store) ! 1) = True
   \<and> snd (getDevices no_number 70000 demo_store) = demo_store"
  using snapshot_staleness[of 0 demo_store "''AA''"
          "[(''online'', JBool True), (''last_seen'', JNum 1000)]" 1000 no_number 70000]
        snapshot_staleness[of 1 demo_store "''BB''"
          "[(''online'', JBool True), (''last_seen'', JNum 50000)]" 50000 no_number 70000]
  by (simp add: demo_store_def esp_init_def get_prop_def)

section \<open>Presence inferred from a byte-count report\<close>

text \<open>
  C9, as the claim states it, fails: a stored \<open>last_press\<close> of 0 (left by the press line
  \<open>BUZZER:EC:62:60:1D:E8:D4,0\<close>) does not survive the next byte-count report for that
  address; it becomes \<open>null\<close>.
\<close>

theorem byte_report_resets_zero_press:
  "get_prop ''last_press'' (entry_of ''EC:62:60:1D:E8:D4''
      (handleSerialData keep_text 2 ''BUZZER:EC:62:60:1D:E8:D4,0''
        (handleSerialData keep_text 1 ''Received 16 bytes from: EC:62:60:1D:E8:D4'' esp_init)))
     = JNum 0
   \<and> get_prop ''last_press'' (entry_of ''EC:62:60:1D:E8:D4''
      (handleSerialData keep_text 3 ''Received 16 bytes from: EC:62:60:1D:E8:D4''
        (handleSerialData keep_text 2 ''BUZZER:EC:62:60:1D:E8:D4,0''
          (handleSerialData keep_text 1 ''Received 16 bytes from: EC:62:60:1D:E8:D4'' esp_init))))
     = JNull"
  by (simp add: handleSerialData_def startsWith_def handleBuzzerPress_def Let_def
        parse_eval esp_init_def match_mac_def is_mac_char_def handleTriviaModeDevice_def
        entry_of_def get_prop_def js_or_def)

text \<open>
  C9, amended. For every line \<open>Received <n> bytes from: <mac>\<close> (\<open><n>\<close> decimal digits,
  \<open><mac>\<close> seventeen characters out of \<open>A-F\<close>, \<open>0-9\<close> and the colon), the entry of
  \<open><mac>\<close> afterwards is online with discovery mode \<open>trivia_heartbeat\<close>; its press count
  is the previous one when that was truthy and 0 otherwise, its last press is the previous
  one when that was truthy and \<open>null\<close> otherwise (no entry, or a stored 0, \<open>NaN\<close> or
  \<open>null\<close>); the entry of every other key is unchanged.
\<close>

theorem byte_report_presence:
  assumes "list_all is_digit n" and "length mac = 17" and "list_all is_mac_char mac"
  shows "get_prop ''online'' (entry_of mac (handleSerialData f now (''Received '' @ n @ '' bytes from: '' @ mac) s)) = JBool True
       \<and> get_prop ''discovery_mode'' (entry_of mac (handleSerialData f now (''Received '' @ n @ '' bytes from: '' @ mac) s)) = JStr ''trivia_heartbeat''
       \<and> get_prop ''press_count'' (entry_of mac (handleSerialData f now (''Received '' @ n @ '' bytes from: '' @ mac) s))
           = (if truthy (get_prop ''press_count'' (entry_of mac s))
              then get_prop ''press_count'' (entry_of mac s) else JNum 0)
       \<and> get_prop ''last_press'' (entry_of mac (handleSerialData f now (''Received '' @ n @ '' bytes from: '' @ mac) s))
           = (if truthy (get_prop ''last_press'' (entry_of mac s))
              then get_prop ''last_press'' (entry_of mac s) else JNull)
       \<and> (\<forall>k. k \<noteq> mac \<longrightarrow>
             map_get k (deviceStates (handleSerialData f now (''Received '' @ n @ '' bytes from: '' @ mac) s))
               = map_get k (deviceStates s))"
  unfolding report_line_routes[OF assms]
  by (simp add: handleTriviaModeDevice_def entry_of_def Let_def map_get_map_set get_prop_def
        js_or_def)

theorem byte_report_presence_witness:
  "get_prop ''press_count'' (entry_of ''EC:62:60:1D:E8:D4'' pressed_store) = JNum 1
   \<and> get_prop ''last_press'' (entry_of ''EC:62:60:1D:E8:D4'' pressed_store) = JNum 1700000000000
   \<and> get_prop ''pressed'' (entry_of ''EC:62:60:1D:E8:D4'' pressed_store) = JBool True
   \<and> get_prop ''press_count'' (entry_of ''EC:62:60:1D:E8:D4''
        (handleSerialData keep_text 4 ''Received 16 bytes from: EC:62:60:1D:E8:D4'' pressed_store))
       = JNum 1
   \<and> get_prop ''last_press'' (entry_of ''EC:62:60:1D:E8:D4''
        (handleSerialData keep_text 4 ''Received 16 bytes from: EC:62:60:1D:E8:D4'' pressed_store))
       = JNum 1700000000000
   \<and> get_prop ''online'' (entry_of ''EC:62:60:1D:E8:D4''
        (handleSerialData keep_text 4 ''Received 16 bytes from: EC:62:60:1D:E8:D4'' pressed_store))
       = JBool True
   \<and> map_get ''AA:BB:CC:DD:EE:FF'' (deviceStates
        (handleSerialData keep_text 4 ''Received 16 bytes from: EC:62:60:1D:E8:D4'' pressed_store))
       = map_get ''AA:BB:CC:DD:EE:FF'' (deviceStates pressed_store)
   \<and> map_get ''AA:BB:CC:DD:EE:FF'' (deviceStates pressed_store) \<noteq> None"
  using byte_report_presence[of "''16''" "''EC:62:60:1D:E8:D4''" keep_text 4 pressed_store]
  by (simp add: pressed_store_def is_digit_def is_mac_char_def entry_of_def esp_init_def
        get_prop_def handleSerialData_def startsWith_def handleBuzzerPress_def Let_def
        parse_eval match_mac_def handleTriviaModeDevice_def js_or_def)

section \<open>Device lines and press events use different keys\<close>

text \<open>
  C10. A line \<open>DEVICE:<id>,<fields>\<close> is filed under the part of \<open><id>\<close> before its first
  colon (a non-empty part, \<open><id>\<close> free of commas), and an entry is stored under that key;
  a following press line for an identifier that contains a colon leaves that entry exactly
  as it was.
\<close>

theorem device_key_is_first_segment:
  assumes "CHR '','' \<notin> set ident"
      and "takeWhile (\<lambda>c. c \<noteq> CHR '':'') ident \<noteq> []"
      and "CHR '':'' \<in> set mac"
      and "CHR '','' \<notin> set mac"
      and "CHR '','' \<notin> set ts"
  shows "device_key (''DEVICE:'' @ ident @ '','' @ rest)
           = Some (takeWhile (\<lambda>c. c \<noteq> CHR '':'') ident)
       \<and> map_get (takeWhile (\<lambda>c. c \<noteq> CHR '':'') ident)
             (deviceStates (handleSerialData f t1 (''DEVICE:'' @ ident @ '','' @ rest) s)) \<noteq> None
       \<and> map_get (takeWhile (\<lambda>c. c \<noteq> CHR '':'') ident)
             (deviceStates (handleSerialData f t2 (''BUZZER:'' @ mac @ '','' @ ts)
                (handleSerialData f t1 (''DEVICE:'' @ ident @ '','' @ rest) s)))
           = map_get (takeWhile (\<lambda>c. c \<noteq> CHR '':'') ident)
               (deviceStates (handleSerialData f t1 (''DEVICE:'' @ ident @ '','' @ rest) s))"
proof -
  let ?k = "takeWhile (\<lambda>c. c \<noteq> CHR '':'') ident"
  let ?dl = "''DEVICE:'' @ ident @ '','' @ rest"
  let ?bl = "''BUZZER:'' @ mac @ '','' @ ts"
  have key: "device_key ?dl = Some ?k"
    using device_key_form[OF assms(1), of rest] assms(2) by simp
  have dev: "deviceStates (handleSerialData f t1 ?dl s) = deviceStates (parseDeviceData t1 ?dl s)"
    by (simp add: handleSerialData_def startsWith_def Let_def)
  have stored: "map_get ?k (deviceStates (handleSerialData f t1 ?dl s)) \<noteq> None"
    unfolding dev using key by (rule parseDeviceData_stores)
  have sw: "startsWith ?bl ''BUZZER:''" by (rule startsWith_append)
  have fs: "split_on CHR '','' (drop 7 ?bl) = [mac, ts]"
    using assms(4,5) by (rule buzzer_fields)
  have press: "handleSerialData f t2 ?bl s' = handleBuzzerPress t2 mac (parseInt (Some ts)) s'" for s'
    unfolding handleSerialData_def by (simp only: sw fs if_True Let_def) simp
  have "CHR '':'' \<notin> set ?k" using key by (rule device_key_no_colon)
  then have ne: "?k \<noteq> mac" using assms(3) by auto
  show ?thesis
    using key stored handleBuzzerPress_other_key[OF ne] by (simp only: press) simp
qed

theorem device_key_is_first_segment_witness:
  "device_key ''DEVICE:11:22:33:44:55:66,online=1'' = Some ''11''
   \<and> map_get ''11'' (deviceStates
         (handleSerialData keep_text 7 ''BUZZER:11:22:33:44:55:66,1700000000000''
           (handleSerialData keep_text 5 ''DEVICE:11:22:33:44:55:66,online=1'' esp_init)))
       = map_get ''11'' (deviceStates
           (handleSerialData keep_text 5 ''DEVICE:11:22:33:44:55:66,online=1'' esp_init))"
  using device_key_is_first_segment[of "''11:22:33:44:55:66''" "''11:22:33:44:55:66''"
          "''1700000000000''" "''online=1''" keep_text 5 esp_init 7]
  by simp

section \<open>The last-online time stamp over a run\<close>

text \<open>
  C6, as the claim states it, fails: under a non-decreasing clock, the device line
  \<open>DEVICE:11:22:33:44:55:66,online=0,last_online=5\<close> replaces the stored time stamp 1000
  of key \<open>11\<close> by the text \<open>5\<close>, because a field of that name is stored like any other.
\<close>

theorem last_online_overridden_by_field:
  "sorted (map fst [line_online, line_override])
   \<and> last_online_of ''11'' (run_lines keep_text [line_online] esp_init) = JNum 1000
   \<and> last_online_of ''11'' (run_lines keep_text [line_online, line_override] esp_init) = JStr ''5''"
  by (simp add: line_online_def line_override_def esp_init_def handleSerialData_def
        startsWith_def Let_def parseDeviceData_def device_key_def device_field_def get_prop_def
        js_or_def last_online_of_def entry_of_def)

text \<open>
  C6, amended. Over every run from the initial state, with a non-decreasing clock and no
  accepted device line carrying a field named \<open>last_online\<close>, the stored \<open>last_online\<close>
  of every key never decreases. Moreover such a device line that leaves its entry not
  online keeps the stored \<open>last_online\<close>, and the snapshot of that entry is offline and
  reports that value (\<open>null\<close> if it was absent or 0).
\<close>

theorem last_online_monotone:
  assumes "sorted (map fst (es1 @ es2))"
      and "\<forall>e \<in> set (es1 @ es2). \<not> names_last_online (snd e)"
  shows "ts_le (last_online_of k (run_lines f es1 esp_init))
               (last_online_of k (run_lines f (es1 @ es2) esp_init))
       \<and> (\<not> names_last_online l \<and> device_key l = Some k
            \<and> get_prop ''online'' (entry_of k (handleSerialData f t l s)) \<noteq> JBool True
          \<longrightarrow> last_online_of k (handleSerialData f t l s) = last_online_of k s
              \<and> \<not> v_online (device_view_of str_num now k (entry_of k (handleSerialData f t l s)))
              \<and> v_last_online (device_view_of str_num now k (entry_of k (handleSerialData f t l s)))
                    = js_or (last_online_of k s) JNull)"
proof (intro conjI impI)
  show "ts_le (last_online_of k (run_lines f es1 esp_init))
              (last_online_of k (run_lines f (es1 @ es2) esp_init))"
    using assms by (rule last_online_monotone_aux)
next
  assume h: "\<not> names_last_online l \<and> device_key l = Some k
            \<and> get_prop ''online'' (entry_of k (handleSerialData f t l s)) \<noteq> JBool True"
  then have dk: "device_key l = Some k" and nn: "\<not> names_last_online l" by auto
  have e: "entry_of k (handleSerialData f t l s) = entry_of k (parseDeviceData t l s)"
    by (simp add: entry_of_def device_line_routes[OF dk])
  have off: "get_prop ''online'' (entry_of k (parseDeviceData t l s)) \<noteq> JBool True"
    using h e by simp
  have lo: "last_online_of k (parseDeviceData t l s) = last_online_of k s"
    using last_online_device[OF nn, of k t s] off by simp
  show keep: "last_online_of k (handleSerialData f t l s) = last_online_of k s"
    using lo e by (simp add: last_online_of_def)
  show "\<not> v_online (device_view_of str_num now k (entry_of k (handleSerialData f t l s)))"
    using off e by (simp add: device_view_of_def Let_def)
  show "v_last_online (device_view_of str_num now k (entry_of k (handleSerialData f t l s)))
          = js_or (last_online_of k s) JNull"
    using off lo e by (simp add: device_view_of_def Let_def last_online_of_def js_or_def)
qed

theorem last_online_monotone_witness:
  "ts_le (last_online_of ''11'' (run_lines keep_text [line_online] esp_init))
         (last_online_of ''11'' (run_lines keep_text ([line_online] @ [line_offline]) esp_init))
   \<and> last_online_of ''11'' (handleSerialData keep_text 2000 (snd line_offline)
          (run_lines keep_text [line_online] esp_init)) = JNum 1000
   \<and> v_last_online (device_view_of no_number 3000 ''11'' (entry_of ''11''
          (handleSerialData keep_text 2000 (snd line_offline)
             (run_lines keep_text [line_online] esp_init)))) = JNum 1000"
  using last_online_monotone[where ?es1.0 = "[line_online]" and ?es2.0 = "[line_offline]"
          and l = "snd line_offline" and k = "''11''" and f = keep_text and t = 2000
          and s = "run_lines keep_text [line_online] esp_init"
          and str_num = no_number and now = 3000]
  by (simp add: line_online_def line_offline_def esp_init_def handleSerialData_def
        startsWith_def Let_def parseDeviceData_def device_key_def device_field_def get_prop_def
        js_or_def last_online_of_def entry_of_def names_last_online_def)

section \<open>One press, one outcome per mapping\<close>

text \<open>
  C1, as the claim states it, fails: with three mappings resolved, the first target's send
  failing and the activity log rejecting its rows, the error raised while recording the
  failure ends the loop; one send is attempted instead of three, and no outcome is logged
  or published.
\<close>

theorem rejected_row_ends_fan_out:
  "map target_name (getMappingsForBuzzer (db broken_env) (bd_mac_address demo_press))
     = [''Stage'', ''Lights'', ''Audio'']
   \<and> send_attempts (added osc_init (snd (processBuzzerPress broken_env demo_press osc_init)))
       = [(0, ''/go'', Some ''ENOTFOUND'')]
   \<and> log_rows (added osc_init (snd (processBuzzerPress broken_env demo_press osc_init))) = []
   \<and> published (added osc_init (snd (processBuzzerPress broken_env demo_press osc_init))) = []
   \<and> fst (processBuzzerPress broken_env demo_press osc_init) = Inl ''SQLITE_BUSY''"
  by (simp add: osc_eval getMappingsForBuzzer_def demo_db_def demo_env_def broken_env_def
        osc_init_def demo_press_def failed_activity_def error_activity_def)

text \<open>
  C1, amended. When the log accepts every row and every notification reaches the
  observers, a press whose buzzer resolves to the mappings \<open>ms\<close> (at least one) is processed
  without error: one send is attempted per mapping, in order, and for each mapping exactly
  one row is logged and one notification published, whose success flag is the outcome of
  that mapping's own send, whatever the other sends returned. With the second of three
  targets failing, the outcomes are success, failure, success.
\<close>

theorem press_fans_out:
  assumes "healthy_sinks e"
      and "query_err e (length (trace s)) (bd_mac_address bd) = None"
      and "getMappingsForBuzzer (db e) (bd_mac_address bd) = ms"
      and "ms \<noteq> []"
  shows "fst (processBuzzerPress e bd s) = Inr ()
       \<and> map (\<lambda>x. fst (snd x)) (send_attempts (added s (snd (processBuzzerPress e bd s))))
           = map command_address ms
       \<and> length (send_results (added s (snd (processBuzzerPress e bd s)))) = length ms
       \<and> log_rows (added s (snd (processBuzzerPress e bd s)))
           = map (\<lambda>(m, r). outcome_activity m bd r)
               (zip ms (send_results (added s (snd (processBuzzerPress e bd s)))))
       \<and> map ev_success (published (added s (snd (processBuzzerPress e bd s))))
           = map (\<lambda>r. r = None) (send_results (added s (snd (processBuzzerPress e bd s))))
       \<and> map ev_target_name (published (added s (snd (processBuzzerPress e bd s))))
           = map (\<lambda>m. Some (target_name m)) ms"
proof -
  let ?s0 = "s\<lparr>trace := trace s @ [Query (bd_mac_address bd) None]\<rparr>"
  obtain new where h: "fst (send_all e ms bd ?s0) = Inr ()"
      "trace (snd (send_all e ms bd ?s0)) = trace ?s0 @ new"
      "map (\<lambda>x. fst (snd x)) (send_attempts new) = map command_address ms"
      "length (send_results new) = length ms"
      "log_rows new = map (\<lambda>(m, r). outcome_activity m bd r) (zip ms (send_results new))"
      "map ev_success (published new) = map (\<lambda>r. r = None) (send_results new)"
      "map ev_target_name (published new) = map (\<lambda>m. Some (target_name m)) ms"
    using send_all_healthy[OF assms(1), of ms bd ?s0] by (elim exE conjE) (rule that; assumption)
  have run: "processBuzzerPress e bd s = send_all e ms bd ?s0"
    using assms(2,3,4) h(1)
    by (cases "send_all e ms bd ?s0")
       (simp add: processBuzzerPress_def try_catch_def and_then_def db_getMappingsForBuzzer_def
          Let_def)
  have add: "added s (snd (send_all e ms bd ?s0)) = Query (bd_mac_address bd) None # new"
    using h(2) by (simp add: added_def)
  show ?thesis
    unfolding run add using h
    by (simp add: send_results_def log_rows_def published_def)
qed

theorem press_fans_out_witness:
  "fst (processBuzzerPress demo_env demo_press osc_init) = Inr ()
   \<and> map ev_target_name
        (published (added osc_init (snd (processBuzzerPress demo_env demo_press osc_init))))
       = [Some ''Stage'', Some ''Lights'', Some ''Audio'']
   \<and> map ev_success
        (published (added osc_init (snd (processBuzzerPress demo_env demo_press osc_init))))
       = [True, False, True]
   \<and> map success
        (log_rows (added osc_init (snd (processBuzzerPress demo_env demo_press osc_init))))
       = [True, False, True]"
  using press_fans_out[of demo_env osc_init demo_press
          "getMappingsForBuzzer demo_db ''AA:BB:CC:DD:EE:FF''"]
  by (simp add: osc_eval getMappingsForBuzzer_def demo_db_def demo_env_def osc_init_def
        demo_press_def sent_event_def failed_event_def sent_activity_def failed_activity_def
        healthy_sinks_def outcome_activity_def shown_name_def)

section \<open>A press with no mapping\<close>

text \<open>
  C3, as the claim states it, fails: for a buzzer that resolves to no active mapping, when
  the activity log rejects its rows no \<open>unmapped\<close> outcome is produced (the log holds no
  row at all) and the call ends by raising the log's error.
\<close>

theorem unmapped_row_rejected:
  "getMappingsForBuzzer (db mute_env) (bd_mac_address demo_press) = []
   \<and> send_attempts (added osc_init (snd (processBuzzerPress mute_env demo_press osc_init))) = []
   \<and> log_outcomes (added osc_init (snd (processBuzzerPress mute_env demo_press osc_init)))
       = [(''buzzer_press_unmapped'', Some ''SQLITE_BUSY''),
          (''buzzer_press_error'', Some ''SQLITE_BUSY'')]
   \<and> log_rows (added osc_init (snd (processBuzzerPress mute_env demo_press osc_init))) = []
   \<and> fst (processBuzzerPress mute_env demo_press osc_init) = Inl ''SQLITE_BUSY''"
  by (simp add: osc_eval getMappingsForBuzzer_def demo_db_def demo_env_def osc_init_def
        demo_press_def quiet_env_def mute_env_def log_outcomes_def unmapped_activity_def
        error_activity_def)

text \<open>
  C3, amended. When the query for the mappings succeeds and the buzzer resolves to no
  active mapping, processing the press attempts no send, creates no client and publishes
  nothing; after the query its first action is the append of one row of type
  \<open>buzzer_press_unmapped\<close>, the only row of that type it attempts. When the log accepts
  that row, the call does nothing more and returns normally. When the log rejects it with
  an error, the call appends one row of type \<open>buzzer_press_error\<close> carrying that error and
  does nothing more; it then returns normally when the log accepts this second row and
  raises the log's error when it does not.
\<close>

theorem unmapped_press:
  assumes "query_err e (length (trace s)) (bd_mac_address bd) = None"
      and "getMappingsForBuzzer (db e) (bd_mac_address bd) = []"
  shows "send_attempts (added s (snd (processBuzzerPress e bd s))) = []
       \<and> created (added s (snd (processBuzzerPress e bd s))) = []
       \<and> publish_attempts (added s (snd (processBuzzerPress e bd s))) = []
       \<and> clients (snd (processBuzzerPress e bd s)) = clients s
       \<and> filter (\<lambda>x. event_type (fst x) = ''buzzer_press_unmapped'')
             (log_attempts (added s (snd (processBuzzerPress e bd s))))
           = [(unmapped_activity (bd_mac_address bd),
               log_err e (Suc (length (trace s))) (unmapped_activity (bd_mac_address bd)))]
       \<and> (case log_err e (Suc (length (trace s))) (unmapped_activity (bd_mac_address bd)) of
            None \<Rightarrow>
              fst (processBuzzerPress e bd s) = Inr ()
              \<and> added s (snd (processBuzzerPress e bd s))
                  = [Query (bd_mac_address bd) None,
                     LogAppend (unmapped_activity (bd_mac_address bd)) None]
          | Some err \<Rightarrow>
              fst (processBuzzerPress e bd s)
                = outcome (log_err e (Suc (Suc (length (trace s))))
                             (error_activity (bd_mac_address bd) err))
              \<and> added s (snd (processBuzzerPress e bd s))
                  = [Query (bd_mac_address bd) None,
                     LogAppend (unmapped_activity (bd_mac_address bd)) (Some err),
                     LogAppend (error_activity (bd_mac_address bd) err)
                       (log_err e (Suc (Suc (length (trace s))))
                          (error_activity (bd_mac_address bd) err))])"
proof (cases "log_err e (Suc (length (trace s))) (unmapped_activity (bd_mac_address bd))")
  case None
  then show ?thesis
    using assms
    by (simp add: processBuzzerPress_def try_catch_def and_then_def db_getMappingsForBuzzer_def
          logActivity_run outcome_def Let_def added_def unmapped_activity_def)
next
  case (Some err)
  then show ?thesis
    using assms
    by (simp add: processBuzzerPress_def try_catch_def and_then_def db_getMappingsForBuzzer_def
          logActivity_run outcome_def Let_def added_def unmapped_activity_def
          error_activity_def)
qed

theorem unmapped_press_witness:
  "processBuzzerPress quiet_env demo_press osc_init
     = (Inr (), \<lparr>clients = [],
                  trace = [Query ''AA:BB:CC:DD:EE:FF'' None,
                           LogAppend (unmapped_activity ''AA:BB:CC:DD:EE:FF'') None]\<rparr>)
   \<and> processBuzzerPress picky_env demo_press osc_init
     = (Inr (), \<lparr>clients = [],
                  trace = [Query ''AA:BB:CC:DD:EE:FF'' None,
                           LogAppend (unmapped_activity ''AA:BB:CC:DD:EE:FF'') (Some ''SQLITE_BUSY''),
                           LogAppend (error_activity ''AA:BB:CC:DD:EE:FF'' ''SQLITE_BUSY'') None]\<rparr>)"
  using unmapped_press[of quiet_env osc_init demo_press]
        unmapped_press[of picky_env osc_init demo_press]
  by (simp add: osc_eval getMappingsForBuzzer_def demo_db_def demo_env_def osc_init_def
        demo_press_def quiet_env_def picky_env_def unmapped_activity_def error_activity_def)

section \<open>The pool of senders\<close>

text \<open>
  C4. The pool is keyed on the text \<open>address:port\<close>, and two targets have the same key
  exactly when they have the same address and the same port. Take any two requests, each a
  dispatched mapping or an administrator test (whose lookups succeed), whatever the names
  of their targets, and run one after the other from any state. Each request sends once,
  through the client its key is pooled with (the client constructed for it when the pool
  had none), and afterwards each of the two keys is pooled with the client used. When the
  two targets have the same address and port, both requests use the same client, and at
  most one client is constructed, exactly one when the pool had none under that key. A
  second request that differs in address or port has a client constructed for it when the
  pool had none under its key; and in a pool as the service keeps it the two requests use
  the same client only when their targets have the same address and port.
\<close>

theorem pooled_sender_shared:
  assumes "reads_succeed e"
      and "request_target (db e) r1 = Some (ip1, p1)"
      and "request_target (db e) r2 = Some (ip2, p2)"
  shows "(let s1 = snd (run_request e r1 s);
              s2 = snd (run_request e r2 s1);
              c1 = pool_client ip1 p1 s;
              c2 = pool_client ip2 p2 s1
          in (targetKey ip1 p1 = targetKey ip2 p2) = (ip1 = ip2 \<and> p1 = p2)
           \<and> map fst (send_attempts (added s s2)) = [c1, c2]
           \<and> (ip1 = ip2 \<and> p1 = p2 \<longrightarrow> c2 = c1)
           \<and> created (added s s2)
               = (if map_get (targetKey ip1 p1) (clients s) = None then [(c1, ip1, p1)] else [])
                 @ (if (ip1, p1) \<noteq> (ip2, p2) \<and> map_get (targetKey ip2 p2) (clients s) = None
                    then [(c2, ip2, p2)] else [])
           \<and> map_get (targetKey ip1 p1) (clients s2) = Some c1
           \<and> map_get (targetKey ip2 p2) (clients s2) = Some c2
           \<and> (pool_wf s \<longrightarrow> (c1 = c2) = (ip1 = ip2 \<and> p1 = p2) \<and> pool_wf s2))"
proof -
  let ?s1 = "snd (run_request e r1 s)"
  let ?s2 = "snd (run_request e r2 ?s1)"
  let ?k1 = "targetKey ip1 p1"
  let ?k2 = "targetKey ip2 p2"
  let ?c1 = "pool_client ip1 p1 s"
  let ?c2 = "pool_client ip2 p2 ?s1"
  note a = request_summary[OF assms(1,2), of s]
  note b = request_summary[OF assms(1,3), of ?s1]
  note a_made = a[THEN conjunct2, THEN conjunct1]
   and a_sent = a[THEN conjunct2, THEN conjunct2, THEN conjunct1]
   and a_pool = a[THEN conjunct2, THEN conjunct2, THEN conjunct2, THEN conjunct1]
   and a_all = a[THEN conjunct2, THEN conjunct2, THEN conjunct2, THEN conjunct2]
  note b_made = b[THEN conjunct2, THEN conjunct1]
   and b_sent = b[THEN conjunct2, THEN conjunct2, THEN conjunct1]
   and b_pool = b[THEN conjunct2, THEN conjunct2, THEN conjunct2, THEN conjunct1]
   and b_all = b[THEN conjunct2, THEN conjunct2, THEN conjunct2, THEN conjunct2]
  obtain n1 where n1: "trace ?s1 = trace s @ n1" using a by blast
  obtain n2 where n2: "trace ?s2 = trace ?s1 @ n2" using b by blast
  have add1: "added s ?s1 = n1" and add2: "added ?s1 ?s2 = n2"
    using n1 n2 by (simp_all add: added_def)
  have key: "(?k1 = ?k2) = (ip1 = ip2 \<and> p1 = p2)" by (rule targetKey_inj)
  have c1_new: "?c1 = length (created (trace s))" if "map_get ?k1 (clients s) = None"
    using that by (simp add: pool_client_def)
  have c2_new: "?c2 = length (created (trace ?s1))" if "map_get ?k2 (clients ?s1) = None"
    using that by (simp add: pool_client_def)
  have cr1: "created n1 = (if map_get ?k1 (clients s) = None
                           then [(length (created (trace s)), ip1, p1)] else [])"
    using a_made c1_new unfolding add1 by simp
  have cl1: "clients ?s1 = (if map_get ?k1 (clients s) = None
                           then map_set ?k1 (length (created (trace s))) (clients s) else clients s)"
    using a_all c1_new by simp
  have wf1: "pool_wf ?s1" if "pool_wf s" using that n1 cr1 cl1 by (rule pool_wf_step)
  have cr2: "created n2 = (if map_get ?k2 (clients ?s1) = None
                           then [(length (created (trace ?s1)), ip2, p2)] else [])"
    using b_made c2_new unfolding add2 by simp
  have cl2: "clients ?s2 = (if map_get ?k2 (clients ?s1) = None
                           then map_set ?k2 (length (created (trace ?s1))) (clients ?s1) else clients ?s1)"
    using b_all c2_new by simp
  have wf2: "pool_wf ?s2" if "pool_wf s" using wf1[OF that] n2 cr2 cl2 by (rule pool_wf_step)
  have hit1: "map_get ?k1 (clients ?s1) = Some ?c1" by (rule a_pool)
  have same: "(?c2 = ?c1) = (?k2 = ?k1)" if "pool_wf s"
    using wf1[OF that] hit1 by (rule pool_client_key)
  have shared: "ip1 = ip2 \<and> p1 = p2 \<longrightarrow> ?c2 = ?c1"
    using hit1 by (auto simp: pool_client_def)
  have miss2: "(map_get ?k2 (clients ?s1) = None)
                = ((ip1, p1) \<noteq> (ip2, p2) \<and> map_get ?k2 (clients s) = None)"
    unfolding cl1 using key by (auto simp: map_get_map_set)
  have sends: "map fst (send_attempts (added s ?s2)) = [?c1, ?c2]"
    unfolding added_trans[OF n1 n2] send_attempts_append using a_sent b_sent by simp
  have made: "created (added s ?s2)
               = (if map_get ?k1 (clients s) = None then [(?c1, ip1, p1)] else [])
                 @ (if (ip1, p1) \<noteq> (ip2, p2) \<and> map_get ?k2 (clients s) = None
                    then [(?c2, ip2, p2)] else [])"
    unfolding added_trans[OF n1 n2] created_append using a_made b_made miss2 by simp
  have pooled2: "map_get ?k2 (clients ?s2) = Some ?c2" by (rule b_pool)
  have pooled1: "map_get ?k1 (clients ?s2) = Some ?c1"
  proof (cases "map_get ?k2 (clients ?s1)")
    case None
    then have ne: "?k1 \<noteq> ?k2" using hit1 by auto
    have "clients ?s2 = map_set ?k2 (length (created (trace ?s1))) (clients ?s1)"
      using cl2 None by simp
    then show ?thesis using ne hit1 by (simp add: map_get_map_set)
  next
    case (Some c)
    then have "clients ?s2 = clients ?s1" using cl2 by simp
    then show ?thesis using hit1 by simp
  qed
  have kept: "pool_wf s \<longrightarrow> (?c1 = ?c2) = (ip1 = ip2 \<and> p1 = p2) \<and> pool_wf ?s2"
  proof (intro impI conjI)
    assume wf: "pool_wf s"
    show "(?c1 = ?c2) = (ip1 = ip2 \<and> p1 = p2)"
      using same[OF wf] key by (simp only: eq_commute[of ?c1 ?c2] eq_commute[of ?k2 ?k1])
    show "pool_wf ?s2" using wf by (rule wf2)
  qed
  show ?thesis
    unfolding Let_def
    by (intro conjI key sends shared made pooled1 pooled2 kept)
qed

theorem pooled_sender_shared_witness:
  "getMappingsForBuzzer shared_db ''AA:BB:CC:DD:EE:FF'' = [stage_mapping]
   \<and> map ot_name (osc_targets shared_db) = [''Stage'', ''Stage backup'']
   \<and> created (added osc_init (snd (run_request shared_env (Test backup_test)
         (snd (run_request shared_env (Dispatch stage_mapping demo_press) osc_init)))))
       = [(0, ''10.0.0.1'', 53000)]
   \<and> map fst (send_attempts (added osc_init (snd (run_request shared_env (Test backup_test)
         (snd (run_request shared_env (Dispatch stage_mapping demo_press) osc_init))))))
       = [0, 0]
   \<and> created (added osc_init (snd (run_request shared_env (Dispatch side_mapping demo_press)
         (snd (run_request shared_env (Dispatch stage_mapping demo_press) osc_init)))))
       = [(0, ''10.0.0.1'', 53000), (1, ''10.0.0.1'', 53001)]
   \<and> map fst (send_attempts (added osc_init (snd (run_request shared_env (Dispatch side_mapping demo_press)
         (snd (run_request shared_env (Dispatch stage_mapping demo_press) osc_init))))))
       = [0, 1]
   \<and> clients (snd (run_request shared_env (Dispatch side_mapping demo_press)
         (snd (run_request shared_env (Dispatch stage_mapping demo_press) osc_init))))
       = [(''10.0.0.1:53000'', 0), (''10.0.0.1:53001'', 1)]"
  using pooled_sender_shared[of shared_env "Dispatch stage_mapping demo_press" "''10.0.0.1''" 53000
          "Test backup_test" "''10.0.0.1''" 53000 osc_init]
        pooled_sender_shared[of shared_env "Dispatch stage_mapping demo_press" "''10.0.0.1''" 53000
          "Dispatch side_mapping demo_press" "''10.0.0.1''" 53001 osc_init]
  by (simp add: osc_eval sendTestCommand_def db_get_def test_args_def reads_succeed_def
        shared_env_def demo_env_def shared_db_def stage_mapping_def side_mapping_def
        backup_test_def find_command_def find_target_def pool_client_def osc_init_def
        getMappingsForBuzzer_def pool_wf_def demo_press_def)

section \<open>The log and the observers\<close>

text \<open>
  C2, as the claim states it, fails: when the activity log rejects its rows, a send that
  succeeded is followed by two rejected appends and by no publication at all, and the
  error comes back to the caller of \<open>sendOSCMessage\<close>.
\<close>

theorem log_failure_stops_publication:
  "send_results (added osc_init (snd (sendOSCMessage down_env stage_mapping demo_press osc_init)))
     = [None]
   \<and> log_outcomes
        (added osc_init (snd (sendOSCMessage down_env stage_mapping demo_press osc_init)))
       = [(''osc_sent'', Some ''SQLITE_BUSY''), (''osc_failed'', Some ''SQLITE_BUSY'')]
   \<and> publish_attempts
        (added osc_init (snd (sendOSCMessage down_env stage_mapping demo_press osc_init))) = []
   \<and> fst (sendOSCMessage down_env stage_mapping demo_press osc_init) = Inl ''SQLITE_BUSY''"
  by (simp add: osc_eval down_env_def shared_env_def demo_env_def osc_init_def stage_mapping_def
        demo_press_def sent_activity_def failed_activity_def log_outcomes_def)

text \<open>
  C2, amended. Every call of \<open>sendOSCMessage\<close> attempts one send and then records its
  outcome, the two sink actions running in sequence: the row of the outcome is appended to
  the log first, before any publication, so a failing publication cannot prevent it; when
  the log accepts a row, the notification with the same success flag is published directly
  after it, and a publication is attempted nowhere else; when the append or the
  publication for a successful send fails, the failure is recorded next in the same way (a
  row of type \<open>osc_failed\<close> carrying the error, then its notification); when the append or
  the publication for a failure fails, the call ends there. The call raises an error to
  the dispatch path exactly when the last sink action it attempted failed.
\<close>

theorem sinks_run_in_sequence:
  "send_then_record e m bd (fst (sendOSCMessage e m bd s))
      (added s (snd (sendOSCMessage e m bd s)))
   \<and> first_sink_is_log (added s (snd (sendOSCMessage e m bd s)))
   \<and> accepted_row_published (added s (snd (sendOSCMessage e m bd s)))
   \<and> publish_follows_log (added s (snd (sendOSCMessage e m bd s)))
   \<and> ((\<exists>err. fst (sendOSCMessage e m bd s) = Inl err)
        \<longleftrightarrow> effect_failed (last (added s (snd (sendOSCMessage e m bd s)))))"
proof (cases rule: get_client_cases[of "ip_address m" "port m" s])
  case (hit c)
  obtain r res sinks where run: "sendOSCMessage e m bd s
       = (res, s\<lparr>trace := trace s @ SendAttempt c (command_address m)
                                        (parse_args e (command_args m)) r # sinks\<rparr>)"
    and fine: "sinks_fine e m bd r res sinks"
    by (rule sendOSCMessage_sinks[OF hit(2), of e bd])
  show ?thesis
    unfolding run using fine by (simp add: added_def sinks_fine_def)
next
  case miss
  let ?c = "length (created (trace s))"
  let ?s1 = "s\<lparr>clients := map_set (targetKey (ip_address m) (port m)) ?c (clients s),
               trace := trace s @ [ClientCreated ?c (ip_address m) (port m)]\<rparr>"
  obtain r res sinks where run: "sendOSCMessage e m bd s
       = (res, ?s1\<lparr>trace := trace ?s1 @ SendAttempt ?c (command_address m)
                                        (parse_args e (command_args m)) r # sinks\<rparr>)"
    and fine: "sinks_fine e m bd r res sinks"
    by (rule sendOSCMessage_sinks[OF miss(2), of e bd])
  show ?thesis
    unfolding run using fine by (simp add: added_def sinks_fine_def)
qed

theorem sinks_run_in_sequence_witness:
  "fst (sendOSCMessage deaf_env stage_mapping demo_press osc_init) = Inr ()
   \<and> log_outcomes (added osc_init (snd (sendOSCMessage deaf_env stage_mapping demo_press osc_init)))
       = [(''osc_sent'', None), (''osc_failed'', None)]
   \<and> map (\<lambda>x. (ev_success (fst x), snd x))
        (publish_attempts (added osc_init (snd (sendOSCMessage deaf_env stage_mapping demo_press osc_init))))
       = [(True, Some ''listener failed''), (False, None)]
   \<and> fst (sendOSCMessage fussy_env stage_mapping demo_press osc_init) = Inr ()
   \<and> log_outcomes (added osc_init (snd (sendOSCMessage fussy_env stage_mapping demo_press osc_init)))
       = [(''osc_sent'', Some ''SQLITE_BUSY''), (''osc_failed'', None)]
   \<and> map (\<lambda>x. (ev_success (fst x), ev_error (fst x), snd x))
        (publish_attempts (added osc_init (snd (sendOSCMessage fussy_env stage_mapping demo_press osc_init))))
       = [(False, Some ''SQLITE_BUSY'', None)]"
  using sinks_run_in_sequence[of deaf_env stage_mapping demo_press osc_init]
        sinks_run_in_sequence[of fussy_env stage_mapping demo_press osc_init]
  by (simp add: osc_eval deaf_env_def fussy_env_def shared_env_def demo_env_def osc_init_def
        stage_mapping_def demo_press_def sent_activity_def failed_activity_def sent_event_def
        failed_event_def log_outcomes_def outcome_activity_def outcome_event_def
        shown_name_def)

end
